theory Spec2Isabelle
  imports Main "HOL-Library.Finite_Map"
begin

section \<open>Data model\<close>

text \<open>
  The development embeds the context-aware \<open>BookmarkManager\<close> class (the second
  class of \<open>src/unnamed/part_001\<close>, lines 170 to 410) together with the
  \<open>Bookmark\<close> interface of \<open>src/bookmark.ts\<close>.

  A \<open>Bookmark\<close> object is a record. Its field \<open>id\<close> is called \<open>bookmarkId\<close>
  here, the name the source uses for the parameters that carry it.
  \<open>lineNumber\<close> is a JavaScript number that only ever holds integers: an \<open>int\<close>.

  Identifiers, context names and paths are strings that the class only compares. A
  label and a line of a document are strings that \<open>trim\<close> reads: they are the lists
  of their UTF-16 code units.
\<close>

type_synonym CodeUnits = "nat list"

record Bookmark =
  bookmarkId :: string
  fsPath :: string
  lineNumber :: int
  label :: CodeUnits

text \<open>
  \<open>BookmarkStorage\<close> is the object \<open>{ [contextId: string]: Bookmark[] }\<close>: a
  finite map of its own properties, whose values are arrays. \<open>Object.keys\<close> gives
  the domain of the map and \<open>delete\<close> drops a key. A property read
  \<open>this.storage[c]\<close> gives the array of the key \<open>c\<close>; for a name that is no key it
  goes on to the prototype of the object, \<open>Object.prototype\<close>, and gives the member
  of that name when there is one, and \<open>undefined\<close> otherwise. Arrays (also empty
  ones) and all members of \<open>Object.prototype\<close> are truthy, so the test
  \<open>!this.storage[c]\<close> of \<open>deleteContext\<close> and \<open>load\<close> fails exactly for the
  keys and the member names: \<open>truthyProperty\<close>. The read of \<open>getBookmarks\<close> is
  modelled for an active identifier that is a key or no member name; for a member name
  that is no key the code obtains that member, which is no array. The arrays of two
  contexts are different objects with different elements: no method of the class
  stores one array, or one bookmark, under two contexts.

  The workspace state of the editor is the \<open>Memento\<close> behind
  \<open>context.workspaceState\<close>: the three keys the class reads and writes, and a
  counter of the \<open>update\<close> calls made on it, so that a write that stores an
  equal value can still be told from no write.
\<close>

type_synonym BookmarkStorage = "(string, Bookmark list) fmap"

record Memento =
  bookmarks_entry :: "Bookmark list option"
  bookmark_storage_entry :: "BookmarkStorage option"
  bookmark_active_context_entry :: "string option"
  update_calls :: nat

record BookmarkManager =
  storage :: BookmarkStorage
  activeContextId :: string
  currentBookmarkIndex :: int
  workspaceState :: Memento

definition DEFAULT_CONTEXT :: string where
  "DEFAULT_CONTEXT = ''default''"

definition objectPrototypeMembers :: "string list" where
  "objectPrototypeMembers =
     [''constructor'', ''hasOwnProperty'', ''isPrototypeOf'', ''propertyIsEnumerable'',
      ''toLocaleString'', ''toString'', ''valueOf'', ''__proto__'',
      ''__defineGetter__'', ''__defineSetter__'', ''__lookupGetter__'', ''__lookupSetter__'']"

definition truthyProperty :: "BookmarkStorage \<Rightarrow> string \<Rightarrow> bool" where
  "truthyProperty st c = (c \<in> set objectPrototypeMembers \<or> fmlookup st c \<noteq> None)"

datatype DeleteResult = Success | Not_found | Active | Last

subsection \<open>The editor's positions, ranges and documents\<close>

text \<open>
  \<open>vscode.Position\<close>, \<open>vscode.Range\<close>, \<open>TextDocument\<close> and the change event
  belong to the editor's API, which the class only consumes. They follow the API's
  documented behaviour: a position holds a non-negative line and character, and its
  constructor rejects a negative one; \<open>Range.contains\<close> holds for the positions
  from the start to the end of the range, both included; \<open>lineAt\<close> rejects a line
  outside the document. A document is the list of its lines.
  \<open>String.prototype.trim\<close> removes from both ends of a string the code units that
  are white space or line terminators of the language.
\<close>

record Position =
  line :: nat
  character :: nat

record Range =
  range_start :: Position
  range_end :: Position

record ContentChange =
  change_range :: Range
  change_text :: string

record TextDocument =
  uri_fsPath :: string
  doc_lines :: "CodeUnits list"

record TextDocumentChangeEvent =
  document :: TextDocument
  contentChanges :: "ContentChange list"

definition isBefore :: "Position \<Rightarrow> Position \<Rightarrow> bool" where
  "isBefore p q =
     (if line p < line q then True
      else if line q < line p then False
      else character p < character q)"

definition contains :: "Range \<Rightarrow> Position \<Rightarrow> bool" where
  "contains r p =
     (if isBefore p (range_start r) then False
      else if isBefore (range_end r) p then False
      else True)"

definition lineCount :: "TextDocument \<Rightarrow> int" where
  "lineCount d = int (length (doc_lines d))"

definition isWhiteSpace :: "nat \<Rightarrow> bool" where
  "isWhiteSpace u =
     (u \<in> set [0x0009, 0x000A, 0x000B, 0x000C, 0x000D, 0x0020, 0x00A0, 0x1680,
                0x2028, 0x2029, 0x202F, 0x205F, 0x3000, 0xFEFF] \<or>
      (0x2000 \<le> u \<and> u \<le> 0x200A))"

definition trim :: "CodeUnits \<Rightarrow> CodeUnits" where
  "trim s = rev (dropWhile isWhiteSpace (rev (dropWhile isWhiteSpace s)))"

section \<open>Arrays\<close>

text \<open>
  \<open>Array.prototype.findIndex\<close> gives the first index whose element satisfies the
  predicate, or \<open>-1\<close>. Reading an array at an index outside it gives
  \<open>undefined\<close>, here \<open>None\<close>. \<open>splice(i, 1)\<close> removes the element at \<open>i\<close>
  and \<open>splice(i, 0, x)\<close> inserts \<open>x\<close> before it.
\<close>

fun findIndex :: "('a \<Rightarrow> bool) \<Rightarrow> 'a list \<Rightarrow> int" where
  "findIndex P [] = - 1"
| "findIndex P (x # xs) =
     (if P x then 0
      else (let i = findIndex P xs in if i = - 1 then - 1 else i + 1))"

definition at_index :: "'a list \<Rightarrow> int \<Rightarrow> 'a option" where
  "at_index xs i = (if 0 \<le> i \<and> i < int (length xs) then Some (xs ! nat i) else None)"

definition splice_out :: "nat \<Rightarrow> 'a list \<Rightarrow> 'a list" where
  "splice_out i xs = take i xs @ drop (Suc i) xs"

definition splice_in :: "nat \<Rightarrow> 'a \<Rightarrow> 'a list \<Rightarrow> 'a list" where
  "splice_in i x xs = take i xs @ x # drop i xs"

section \<open>Persistence\<close>

definition save :: "BookmarkManager \<Rightarrow> BookmarkManager" where
  "save s = s\<lparr>workspaceState := (workspaceState s)
       \<lparr>bookmark_storage_entry := Some (storage s),
        bookmark_active_context_entry := Some (activeContextId s),
        update_calls := update_calls (workspaceState s) + 2\<rparr>\<rparr>"

text \<open>
  \<open>load\<close> runs in the constructor, on the field initialisers: an empty storage,
  the default context active, the cursor at \<open>-1\<close>. A legacy \<open>bookmarks\<close> entry
  that is a non-empty array is migrated and the function returns; otherwise the
  new format is read, each key with the default that \<open>workspaceState.get\<close> is
  given for it, and the active context is taken to exist when the read
  \<open>this.storage[this.activeContextId]\<close> is truthy.
\<close>

definition get_bookmark_storage :: "Memento \<Rightarrow> BookmarkStorage" where
  "get_bookmark_storage ws =
     (case bookmark_storage_entry ws of
        Some m \<Rightarrow> m
      | None \<Rightarrow> fmupd DEFAULT_CONTEXT [] fmempty)"

definition get_bookmark_active_context :: "Memento \<Rightarrow> string" where
  "get_bookmark_active_context ws =
     (case bookmark_active_context_entry ws of
        Some a \<Rightarrow> a
      | None \<Rightarrow> DEFAULT_CONTEXT)"

definition load :: "Memento \<Rightarrow> BookmarkManager" where
  "load ws =
     (case bookmarks_entry ws of
        Some (b # bs) \<Rightarrow>
          save \<lparr>storage = fmupd DEFAULT_CONTEXT (b # bs) fmempty,
                activeContextId = DEFAULT_CONTEXT,
                currentBookmarkIndex = - 1,
                workspaceState = ws\<lparr>bookmarks_entry := None,
                                    update_calls := update_calls ws + 1\<rparr>\<rparr>
      | _ \<Rightarrow>
          (let st = get_bookmark_storage ws;
               act = get_bookmark_active_context ws
           in if \<not> truthyProperty st act then
                (if \<not> truthyProperty st DEFAULT_CONTEXT then
                   \<lparr>storage = fmupd DEFAULT_CONTEXT [] st,
                    activeContextId = DEFAULT_CONTEXT,
                    currentBookmarkIndex = - 1, workspaceState = ws\<rparr>
                 else
                   \<lparr>storage = st, activeContextId = DEFAULT_CONTEXT,
                    currentBookmarkIndex = - 1, workspaceState = ws\<rparr>)
              else
                \<lparr>storage = st, activeContextId = act,
                 currentBookmarkIndex = - 1, workspaceState = ws\<rparr>))"

section \<open>Context management\<close>

definition deleteContext :: "string \<Rightarrow> BookmarkManager \<Rightarrow> DeleteResult \<times> BookmarkManager" where
  "deleteContext contextId s =
     (if \<not> truthyProperty (storage s) contextId then (Not_found, s)
      else if contextId = activeContextId s then (Active, s)
      else if fcard (fmdom (storage s)) \<le> 1 then (Last, s)
      else (Success, save (s\<lparr>storage := fmdrop contextId (storage s)\<rparr>)))"

section \<open>Bookmark operations\<close>

text \<open>
  \<open>getBookmarks\<close> returns the live array of the active context, or a fresh empty
  array when the storage has none. \<open>setBookmarks\<close> is the assignment
  \<open>this.storage[this.activeContextId] = ...\<close>, which creates the key when it is
  missing. \<open>mutateBookmarks\<close> is a change made in place to what \<open>getBookmarks\<close>
  returned: it reaches the storage when the array is the stored one and is lost
  with the fresh array otherwise.
\<close>

definition getBookmarks :: "BookmarkManager \<Rightarrow> Bookmark list" where
  "getBookmarks s =
     (case fmlookup (storage s) (activeContextId s) of Some bs \<Rightarrow> bs | None \<Rightarrow> [])"

definition setBookmarks :: "Bookmark list \<Rightarrow> BookmarkManager \<Rightarrow> BookmarkManager" where
  "setBookmarks bs s = s\<lparr>storage := fmupd (activeContextId s) bs (storage s)\<rparr>"

definition mutateBookmarks :: "Bookmark list \<Rightarrow> BookmarkManager \<Rightarrow> BookmarkManager" where
  "mutateBookmarks bs s =
     (case fmlookup (storage s) (activeContextId s) of
        Some _ \<Rightarrow> setBookmarks bs s
      | None \<Rightarrow> s)"

text \<open>The identifier that \<open>uuidv4()\<close> draws is a parameter of \<open>addBookmark\<close>.\<close>

definition addBookmark ::
  "string \<Rightarrow> string \<Rightarrow> int \<Rightarrow> CodeUnits \<Rightarrow> BookmarkManager \<Rightarrow> BookmarkManager" where
  "addBookmark uuid path ln lbl s =
     (let newBookmark = \<lparr>bookmarkId = uuid, fsPath = path, lineNumber = ln, label = lbl\<rparr>
      in save (mutateBookmarks (getBookmarks s @ [newBookmark]) s))"

definition removeBookmark :: "string \<Rightarrow> BookmarkManager \<Rightarrow> BookmarkManager" where
  "removeBookmark bid s =
     (let bookmarks = getBookmarks s;
          oldIndex = findIndex (\<lambda>b. bookmarkId b = bid) bookmarks;
          s1 = setBookmarks (filter (\<lambda>b. bookmarkId b \<noteq> bid) bookmarks) s;
          s2 = (if currentBookmarkIndex s1 > oldIndex
                then s1\<lparr>currentBookmarkIndex := currentBookmarkIndex s1 - 1\<rparr>
                else if currentBookmarkIndex s1 = oldIndex
                then s1\<lparr>currentBookmarkIndex := - 1\<rparr>
                else s1)
      in save s2)"

definition clearAllBookmarks :: "BookmarkManager \<Rightarrow> BookmarkManager" where
  "clearAllBookmarks s = save ((setBookmarks [] s)\<lparr>currentBookmarkIndex := - 1\<rparr>)"

text \<open>
  \<open>reorderBookmarks\<close> receives two bookmark objects and reads only their
  identifiers; the target may be \<open>undefined\<close>.
\<close>

definition reorderBookmarks :: "string \<Rightarrow> string option \<Rightarrow> BookmarkManager \<Rightarrow> BookmarkManager" where
  "reorderBookmarks draggedId target s =
     (let bookmarks = getBookmarks s;
          sourceIndex = findIndex (\<lambda>b. bookmarkId b = draggedId) bookmarks
      in if sourceIndex = - 1 then s
         else
           (let removed = bookmarks ! nat sourceIndex;
                rest = splice_out (nat sourceIndex) bookmarks;
                targetIndex = (case target of
                                 Some targetId \<Rightarrow> findIndex (\<lambda>b. bookmarkId b = targetId) rest
                               | None \<Rightarrow> - 1);
                moved = (if targetIndex \<noteq> - 1 then splice_in (nat targetIndex) removed rest
                         else rest @ [removed]);
                newIndex = (if targetIndex \<noteq> - 1 then targetIndex else int (length moved) - 1)
            in save ((mutateBookmarks moved s)\<lparr>currentBookmarkIndex := newIndex\<rparr>)))"

section \<open>Navigation\<close>

definition getCurrentBookmark :: "BookmarkManager \<Rightarrow> Bookmark option" where
  "getCurrentBookmark s =
     (let bookmarks = getBookmarks s
      in if currentBookmarkIndex s < 0 \<or> currentBookmarkIndex s \<ge> int (length bookmarks)
         then None
         else at_index bookmarks (currentBookmarkIndex s))"

definition getNextBookmark :: "BookmarkManager \<Rightarrow> Bookmark option \<times> BookmarkManager" where
  "getNextBookmark s =
     (let bookmarks = getBookmarks s
      in if length bookmarks = 0 \<or> currentBookmarkIndex s \<ge> int (length bookmarks) - 1
         then (None, s)
         else (let s1 = s\<lparr>currentBookmarkIndex := currentBookmarkIndex s + 1\<rparr>
               in (at_index bookmarks (currentBookmarkIndex s1), s1)))"

definition getPreviousBookmark :: "BookmarkManager \<Rightarrow> Bookmark option \<times> BookmarkManager" where
  "getPreviousBookmark s =
     (let bookmarks = getBookmarks s
      in if length bookmarks = 0 \<or> currentBookmarkIndex s \<le> 0
         then (None, s)
         else (let s1 = s\<lparr>currentBookmarkIndex := currentBookmarkIndex s - 1\<rparr>
               in (at_index bookmarks (currentBookmarkIndex s1), s1)))"

section \<open>Reconciliation with the edits of a document\<close>

text \<open>
  The two sets of identifiers of \<open>handleTextDocumentChange\<close> and a flag for an
  exception of the editor's API (\<open>new vscode.Position\<close> on a negative line,
  \<open>lineAt\<close> outside the document) make the state of its loops. Once the flag is
  set nothing more is done: the exception leaves the method.
\<close>

record Marks =
  changedBookmarks :: "string set"
  deletedBookmarks :: "string set"
  threw :: bool

definition linesAdded :: "ContentChange \<Rightarrow> int" where
  "linesAdded change = int (length (filter (\<lambda>c. c = CHR 0x0A) (change_text change)))"

definition linesRemoved :: "ContentChange \<Rightarrow> int" where
  "linesRemoved change =
     int (line (range_end (change_range change))) - int (line (range_start (change_range change)))"

definition lineDelta :: "ContentChange \<Rightarrow> int" where
  "lineDelta change = linesAdded change - linesRemoved change"

text \<open>
  The body of the inner loop, for one bookmark of \<open>affectedBookmarks\<close>. The
  bookmark objects of that array are the ones the stored array holds, so the
  assignment to \<open>bookmark.lineNumber\<close> is seen in the storage.
\<close>

definition visit :: "ContentChange \<Rightarrow> Bookmark \<Rightarrow> Marks \<Rightarrow> Bookmark \<times> Marks" where
  "visit change bookmark m =
     (if bookmarkId bookmark \<in> deletedBookmarks m then (bookmark, m)
      else
        (let bookmarkLine = lineNumber bookmark - 1
         in if int (line (range_end (change_range change))) < bookmarkLine then
              (bookmark\<lparr>lineNumber := lineNumber bookmark + lineDelta change\<rparr>,
               m\<lparr>changedBookmarks := insert (bookmarkId bookmark) (changedBookmarks m)\<rparr>)
            else if bookmarkLine < 0 then (bookmark, m\<lparr>threw := True\<rparr>)
            else if contains (change_range change) \<lparr>line = nat bookmarkLine, character = 0\<rparr> then
              (bookmark, m\<lparr>deletedBookmarks := insert (bookmarkId bookmark) (deletedBookmarks m)\<rparr>)
            else (bookmark, m)))"

text \<open>
  The inner loop over \<open>affectedBookmarks\<close>, the bookmarks of the edited file:
  it walks the array of the active context and passes over the bookmarks of other
  files, which \<open>filter\<close> left out.
\<close>

fun visitAll :: "string \<Rightarrow> ContentChange \<Rightarrow> Bookmark list \<Rightarrow> Marks \<Rightarrow> Bookmark list \<times> Marks" where
  "visitAll path change [] m = ([], m)"
| "visitAll path change (b # bs) m =
     (if threw m \<or> fsPath b \<noteq> path then
        (case visitAll path change bs m of (bs', m') \<Rightarrow> (b # bs', m'))
      else
        (case visit change b m of
           (b', m1) \<Rightarrow> (case visitAll path change bs m1 of (bs', m') \<Rightarrow> (b' # bs', m'))))"

fun applyChanges :: "string \<Rightarrow> ContentChange list \<Rightarrow> Bookmark list \<Rightarrow> Marks \<Rightarrow> Bookmark list \<times> Marks" where
  "applyChanges path [] bs m = (bs, m)"
| "applyChanges path (change # changes) bs m =
     (case visitAll path change bs m of (bs', m') \<Rightarrow> applyChanges path changes bs' m')"

text \<open>The loop that recomputes the labels of the bookmarks that are left.\<close>

definition relabel :: "TextDocument \<Rightarrow> Bookmark \<Rightarrow> Marks \<Rightarrow> Bookmark \<times> Marks" where
  "relabel doc bookmark m =
     (if lineNumber bookmark - 1 < lineCount doc then
        (if lineNumber bookmark - 1 < 0 then (bookmark, m\<lparr>threw := True\<rparr>)
         else
           (let currentLineText = trim (doc_lines doc ! nat (lineNumber bookmark - 1))
            in if label bookmark \<noteq> currentLineText then
                 (bookmark\<lparr>label := currentLineText\<rparr>,
                  m\<lparr>changedBookmarks := insert (bookmarkId bookmark) (changedBookmarks m)\<rparr>)
               else (bookmark, m)))
      else (bookmark, m))"

fun relabelAll :: "TextDocument \<Rightarrow> Bookmark list \<Rightarrow> Marks \<Rightarrow> Bookmark list \<times> Marks" where
  "relabelAll doc [] m = ([], m)"
| "relabelAll doc (b # bs) m =
     (if threw m \<or> \<not> (fsPath b = uri_fsPath doc \<and> bookmarkId b \<notin> deletedBookmarks m) then
        (case relabelAll doc bs m of (bs', m') \<Rightarrow> (b # bs', m'))
      else
        (case relabel doc b m of
           (b', m1) \<Rightarrow> (case relabelAll doc bs m1 of (bs', m') \<Rightarrow> (b' # bs', m'))))"

datatype Outcome = Returned bool | Threw

definition handleTextDocumentChange ::
  "TextDocumentChangeEvent \<Rightarrow> BookmarkManager \<Rightarrow> Outcome \<times> BookmarkManager" where
  "handleTextDocumentChange event s =
     (let bookmarks = getBookmarks s;
          path = uri_fsPath (document event);
          affectedBookmarks = filter (\<lambda>b. fsPath b = path) bookmarks
      in if length affectedBookmarks = 0 then (Returned False, s)
         else
           (case applyChanges path (contentChanges event) bookmarks
                   \<lparr>changedBookmarks = {}, deletedBookmarks = {}, threw = False\<rparr> of
              (bs1, m1) \<Rightarrow>
                if threw m1 then (Threw, mutateBookmarks bs1 s)
                else
                  (let s1 = (if deletedBookmarks m1 \<noteq> {}
                             then setBookmarks (filter (\<lambda>b. bookmarkId b \<notin> deletedBookmarks m1) bs1) s
                             else mutateBookmarks bs1 s)
                   in case relabelAll (document event) (getBookmarks s1) m1 of
                        (bs2, m2) \<Rightarrow>
                          (let s2 = mutateBookmarks bs2 s1
                           in if threw m2 then (Threw, s2)
                              else if changedBookmarks m2 \<noteq> {} \<or> deletedBookmarks m2 \<noteq> {}
                              then (Returned True, save s2)
                              else (Returned False, s2)))))"

subsection \<open>The conditions of the reconciliation rule\<close>

text \<open>
  The two tests of the inner loop and the test of the label loop, as predicates of an
  edit (or the document) and a bookmark: the edit ends on a line before the bookmark's
  line; the replaced range contains the start of the bookmark's line; the bookmark's
  line is in the document and its trimmed text is not the bookmark's label.
\<close>

definition editPrecedes :: "ContentChange \<Rightarrow> Bookmark \<Rightarrow> bool" where
  "editPrecedes change b = (int (line (range_end (change_range change))) < lineNumber b - 1)"

definition editCovers :: "ContentChange \<Rightarrow> Bookmark \<Rightarrow> bool" where
  "editCovers change b =
     contains (change_range change) \<lparr>line = nat (lineNumber b - 1), character = 0\<rparr>"

definition labelStale :: "TextDocument \<Rightarrow> Bookmark \<Rightarrow> bool" where
  "labelStale doc b =
     (lineNumber b - 1 < lineCount doc \<and> label b \<noteq> trim (doc_lines doc ! nat (lineNumber b - 1)))"

section \<open>Example stores\<close>

text \<open>Concrete stores and events on which the theorems below are evaluated.\<close>

definition mkBookmark :: "string \<Rightarrow> string \<Rightarrow> int \<Rightarrow> Bookmark" where
  "mkBookmark i p n = \<lparr>bookmarkId = i, fsPath = p, lineNumber = n, label = []\<rparr>"

definition empty_memento :: Memento where
  "empty_memento = \<lparr>bookmarks_entry = None, bookmark_storage_entry = None,
     bookmark_active_context_entry = None, update_calls = 0\<rparr>"

definition single_store :: "Bookmark list \<Rightarrow> int \<Rightarrow> BookmarkManager" where
  "single_store bs c = \<lparr>storage = fmupd ''default'' bs fmempty, activeContextId = ''default'',
     currentBookmarkIndex = c, workspaceState = empty_memento\<rparr>"

definition two_store :: "Bookmark list \<Rightarrow> Bookmark list \<Rightarrow> int \<Rightarrow> BookmarkManager" where
  "two_store bs cs c = \<lparr>storage = fmupd ''default'' bs (fmupd ''work'' cs fmempty),
     activeContextId = ''default'', currentBookmarkIndex = c, workspaceState = empty_memento\<rparr>"

definition dangling_store :: BookmarkManager where
  "dangling_store = \<lparr>storage = fmupd ''work'' [] fmempty, activeContextId = ''default'',
     currentBookmarkIndex = - 1, workspaceState = empty_memento\<rparr>"

definition bmA :: Bookmark where "bmA = mkBookmark ''a'' ''f'' 2"

definition bmB :: Bookmark where "bmB = mkBookmark ''b'' ''f'' 5"

definition bmC :: Bookmark where "bmC = mkBookmark ''c'' ''f'' 9"

definition legacy_memento :: Memento where
  "legacy_memento = \<lparr>bookmarks_entry = Some [bmA, bmB],
     bookmark_storage_entry = Some (fmupd ''work'' [bmC] fmempty),
     bookmark_active_context_entry = Some ''work'', update_calls = 0\<rparr>"

definition tampered_memento :: Memento where
  "tampered_memento = \<lparr>bookmarks_entry = None,
     bookmark_storage_entry = Some (fmupd ''work'' [bmC] fmempty),
     bookmark_active_context_entry = Some ''gone'', update_calls = 0\<rparr>"

definition member_name_memento :: Memento where
  "member_name_memento = \<lparr>bookmarks_entry = None,
     bookmark_storage_entry = Some (fmupd ''work'' [bmC] fmempty),
     bookmark_active_context_entry = Some ''constructor'', update_calls = 0\<rparr>"

definition bmD :: Bookmark where "bmD = mkBookmark ''d'' ''f'' 10"

definition doc_f :: TextDocument where
  "doc_f = \<lparr>uri_fsPath = ''f'', doc_lines = replicate 12 []\<rparr>"

definition insert_two_lines :: ContentChange where
  "insert_two_lines =
     \<lparr>change_range = \<lparr>range_start = \<lparr>line = 1, character = 0\<rparr>,
                       range_end = \<lparr>line = 1, character = 0\<rparr>\<rparr>,
      change_text = [CHR ''x'', CHR 0x0A, CHR ''x'', CHR 0x0A]\<rparr>"

definition overwrite_line_1 :: ContentChange where
  "overwrite_line_1 =
     \<lparr>change_range = \<lparr>range_start = \<lparr>line = 1, character = 0\<rparr>,
                       range_end = \<lparr>line = 1, character = 3\<rparr>\<rparr>,
      change_text = [CHR ''y'']\<rparr>"

definition event_of :: "ContentChange list \<Rightarrow> TextDocumentChangeEvent" where
  "event_of changes = \<lparr>document = doc_f, contentChanges = changes\<rparr>"

definition edit_below :: ContentChange where
  "edit_below =
     \<lparr>change_range = \<lparr>range_start = \<lparr>line = 11, character = 0\<rparr>,
                       range_end = \<lparr>line = 11, character = 0\<rparr>\<rparr>,
      change_text = [CHR ''z'']\<rparr>"

definition event_other_file :: TextDocumentChangeEvent where
  "event_other_file =
     \<lparr>document = \<lparr>uri_fsPath = ''g'', doc_lines = []\<rparr>, contentChanges = [insert_two_lines]\<rparr>"

definition no_marks :: Marks where
  "no_marks = \<lparr>changedBookmarks = {}, deletedBookmarks = {}, threw = False\<rparr>"

definition b_marked :: Marks where
  "b_marked = \<lparr>changedBookmarks = {}, deletedBookmarks = {''b''}, threw = False\<rparr>"

definition doc_h :: TextDocument where
  "doc_h = \<lparr>uri_fsPath = ''h'', doc_lines = [[0x00A0, 104, 105, 0x0020]]\<rparr>"

definition bmH :: Bookmark where "bmH = mkBookmark ''h'' ''h'' 1"

definition edit_in_line :: ContentChange where
  "edit_in_line =
     \<lparr>change_range = \<lparr>range_start = \<lparr>line = 0, character = 1\<rparr>,
                       range_end = \<lparr>line = 0, character = 1\<rparr>\<rparr>,
      change_text = [CHR ''h'', CHR ''i'']\<rparr>"

definition event_h :: TextDocumentChangeEvent where
  "event_h = \<lparr>document = doc_h, contentChanges = [edit_in_line]\<rparr>"

section \<open>Finite maps and arrays: auxiliary facts\<close>

lemma fcard_le1_iff:
  assumes "c |\<in>| A"
  shows "fcard A \<le> 1 \<longleftrightarrow> A = {|c|}"
proof
  assume le: "fcard A \<le> 1"
  have sub: "{|c|} |\<subseteq>| A" using assms by simp
  have "fcard A \<le> fcard {|c|}" using le by (simp add: fcard_finsert_if)
  with sub have "{|c|} = A" by (rule fcard_seteq)
  then show "A = {|c|}" by simp
next
  assume "A = {|c|}"
  then show "fcard A \<le> 1" by (simp add: fcard_finsert_if)
qed

lemma lookup_None_iff: "fmlookup m c = None \<longleftrightarrow> c |\<notin>| fmdom m"
  by (cases "fmlookup m c") (auto simp: fmlookup_dom_iff)

lemma findIndex_ge: "- 1 \<le> findIndex P xs"
  by (induction xs) (auto simp: Let_def)

lemma findIndex_lt: "findIndex P xs < int (length xs)"
  by (induction xs) (auto simp: Let_def)

lemma findIndex_none_iff: "findIndex P xs = - 1 \<longleftrightarrow> (\<forall>x\<in>set xs. \<not> P x)"
proof (induction xs)
  case Nil
  then show ?case by simp
next
  case (Cons x xs)
  then show ?case using findIndex_ge[of P xs] by (auto simp: Let_def)
qed

lemma findIndex_Cons_pos:
  "\<not> P x \<Longrightarrow> findIndex P xs \<noteq> - 1 \<Longrightarrow> findIndex P (x # xs) = findIndex P xs + 1"
  by (simp add: Let_def)

lemma findIndex_nth: "findIndex P xs = int i \<Longrightarrow> P (xs ! i)"
proof (induction xs arbitrary: i)
  case Nil
  then show ?case by simp
next
  case (Cons x xs)
  show ?case
  proof (cases "P x")
    case True
    with Cons.prems show ?thesis by simp
  next
    case False
    with Cons.prems have ne: "findIndex P xs \<noteq> - 1"
      by (auto simp: Let_def split: if_splits)
    with False Cons.prems have "findIndex P xs = int i - 1"
      by (simp add: Let_def)
    moreover from this findIndex_ge[of P xs] ne have "0 < i" by (cases i) auto
    ultimately show ?thesis using Cons.IH[of "i - 1"] by (cases i) auto
  qed
qed

lemma findIndex_first: "findIndex P xs = int i \<Longrightarrow> j < i \<Longrightarrow> \<not> P (xs ! j)"
proof (induction xs arbitrary: i j)
  case Nil
  then show ?case by simp
next
  case (Cons x xs)
  show ?case
  proof (cases "P x")
    case True
    with Cons.prems show ?thesis by simp
  next
    case False
    with Cons.prems have ne: "findIndex P xs \<noteq> - 1"
      by (auto simp: Let_def split: if_splits)
    with False Cons.prems have eq: "findIndex P xs = int (i - 1)"
      by (simp add: Let_def)
    show ?thesis
    proof (cases j)
      case 0
      with False show ?thesis by simp
    next
      case (Suc k)
      with Cons.prems have "k < i - 1" by simp
      with Cons.IH[OF eq] Suc show ?thesis by simp
    qed
  qed
qed

lemma findIndex_length: "findIndex P xs = int i \<Longrightarrow> i < length xs"
  using findIndex_lt[of P xs] by simp

lemma filter_distinct_splice:
  "distinct (map f xs) \<Longrightarrow> findIndex (\<lambda>b. f b = k) xs = int i \<Longrightarrow>
     filter (\<lambda>b. f b \<noteq> k) xs = splice_out i xs"
proof (induction xs arbitrary: i)
  case Nil
  then show ?case by simp
next
  case (Cons x xs)
  show ?case
  proof (cases "f x = k")
    case True
    with Cons.prems have "i = 0" by simp
    moreover from Cons.prems have "f x \<notin> f ` set xs" by simp
    with True have "\<forall>y\<in>set xs. f y \<noteq> k" by blast
    then have "filter (\<lambda>b. f b \<noteq> k) xs = xs" by (simp add: filter_id_conv)
    ultimately show ?thesis using True by (simp add: splice_out_def)
  next
    case False
    with Cons.prems have ne: "findIndex (\<lambda>b. f b = k) xs \<noteq> - 1"
      by (auto simp: Let_def split: if_splits)
    with False Cons.prems have eq: "findIndex (\<lambda>b. f b = k) xs = int i - 1"
      by (simp add: Let_def)
    with findIndex_ge[of "\<lambda>b. f b = k" xs] ne obtain j where j: "i = Suc j"
      by (cases i) auto
    with eq have "findIndex (\<lambda>b. f b = k) xs = int j" by simp
    with Cons.IH[of j] Cons.prems have "filter (\<lambda>b. f b \<noteq> k) xs = splice_out j xs" by simp
    with False j show ?thesis by (simp add: splice_out_def)
  qed
qed

lemma getBookmarks_save [simp]: "getBookmarks (save s) = getBookmarks s"
  by (simp add: getBookmarks_def save_def)

lemma getBookmarks_setBookmarks [simp]: "getBookmarks (setBookmarks bs s) = bs"
  by (simp add: getBookmarks_def setBookmarks_def)

lemma getBookmarks_cursor_update [simp]:
  "getBookmarks (s\<lparr>currentBookmarkIndex := c\<rparr>) = getBookmarks s"
  by (simp add: getBookmarks_def)

lemma cursor_save [simp]: "currentBookmarkIndex (save s) = currentBookmarkIndex s"
  by (simp add: save_def)

lemma cursor_setBookmarks [simp]: "currentBookmarkIndex (setBookmarks bs s) = currentBookmarkIndex s"
  by (simp add: setBookmarks_def)

lemma getCurrentBookmark_mem:
  "getCurrentBookmark s = Some b \<Longrightarrow> b \<in> set (getBookmarks s)"
  by (auto simp: getCurrentBookmark_def at_index_def Let_def split: if_splits)

lemma getBookmarks_removeBookmark:
  "getBookmarks (removeBookmark bid s) = filter (\<lambda>b. bookmarkId b \<noteq> bid) (getBookmarks s)"
  by (simp add: removeBookmark_def Let_def)

lemma cursor_removeBookmark:
  "currentBookmarkIndex (removeBookmark bid s) =
     (let oldIndex = findIndex (\<lambda>b. bookmarkId b = bid) (getBookmarks s); c = currentBookmarkIndex s
      in if c > oldIndex then c - 1 else if c = oldIndex then - 1 else c)"
  by (simp add: removeBookmark_def Let_def)

lemma bookmarkId_examples [simp]:
  "bookmarkId bmA = ''a''" "bookmarkId bmB = ''b''" "bookmarkId bmC = ''c''"
  by (simp_all add: bmA_def bmB_def bmC_def mkBookmark_def)

lemma getBookmarks_single_store [simp]: "getBookmarks (single_store bs c) = bs"
  by (simp add: getBookmarks_def single_store_def)

lemma cursor_single_store [simp]: "currentBookmarkIndex (single_store bs c) = c"
  by (simp add: single_store_def)

lemma getBookmarks_nonempty_lookup:
  "getBookmarks s \<noteq> [] \<Longrightarrow> fmlookup (storage s) (activeContextId s) = Some (getBookmarks s)"
  by (auto simp: getBookmarks_def split: option.splits)

lemma mutateBookmarks_nonempty:
  "getBookmarks s \<noteq> [] \<Longrightarrow> mutateBookmarks bs s = setBookmarks bs s"
  by (auto simp: getBookmarks_def mutateBookmarks_def split: option.splits)

lemma findIndex_nonempty: "findIndex P xs = int i \<Longrightarrow> xs \<noteq> []"
  by auto

lemma findIndex_found_nat: "findIndex P xs \<noteq> - 1 \<Longrightarrow> \<exists>i. findIndex P xs = int i"
  using findIndex_ge [of P xs] by (intro exI [of _ "nat (findIndex P xs)"]) simp

lemma splice_in_out [simp]: "i \<le> length xs \<Longrightarrow> splice_out i (splice_in i x xs) = xs"
  by (simp add: splice_out_def splice_in_def min_def)

lemma splice_in_nth [simp]: "i \<le> length xs \<Longrightarrow> splice_in i x xs ! i = x"
  by (simp add: splice_in_def nth_append)

lemma length_splice_in [simp]: "length (splice_in i x xs) = Suc (length xs)"
  by (simp add: splice_in_def)

lemma splice_out_snoc [simp]: "splice_out (length xs) (xs @ [x]) = xs"
  by (simp add: splice_out_def)

lemma reorderBookmarks_found:
  assumes "findIndex (\<lambda>b. bookmarkId b = d) (getBookmarks s) = int si"
  shows "reorderBookmarks d t s =
     (let removed = getBookmarks s ! si;
          rest = splice_out si (getBookmarks s);
          targetIndex = (case t of Some tid \<Rightarrow> findIndex (\<lambda>b. bookmarkId b = tid) rest | None \<Rightarrow> - 1);
          moved = (if targetIndex \<noteq> - 1 then splice_in (nat targetIndex) removed rest else rest @ [removed]);
          newIndex = (if targetIndex \<noteq> - 1 then targetIndex else int (length moved) - 1)
      in save ((setBookmarks moved s)\<lparr>currentBookmarkIndex := newIndex\<rparr>))"
proof -
  have "getBookmarks s \<noteq> []" using assms by (rule findIndex_nonempty)
  then show ?thesis using assms
    by (simp add: reorderBookmarks_def Let_def mutateBookmarks_nonempty)
qed

lemma single_store_cursor_update [simp]:
  "(single_store bs c)\<lparr>currentBookmarkIndex := c'\<rparr> = single_store bs c'"
  by (simp add: single_store_def)

lemmas example_defs = bmA_def bmB_def bmC_def bmD_def mkBookmark_def doc_f_def event_of_def
  insert_two_lines_def overwrite_line_1_def edit_below_def event_other_file_def no_marks_def

lemmas reconcile_defs = handleTextDocumentChange_def visit_def contains_def isBefore_def
  lineDelta_def linesAdded_def linesRemoved_def relabel_def lineCount_def trim_def
  setBookmarks_def mutateBookmarks_def getBookmarks_def save_def Let_def
  editPrecedes_def editCovers_def labelStale_def

lemma example_fields [simp]:
  "fsPath bmA = ''f''" "fsPath bmB = ''f''" "fsPath bmC = ''f''" "fsPath bmD = ''f''"
  "lineNumber bmA = 2" "lineNumber bmB = 5" "lineNumber bmC = 9" "lineNumber bmD = 10"
  "bookmarkId bmD = ''d''"
  by (simp_all add: example_defs)

lemma storage_save [simp]: "storage (save s) = storage s"
  by (simp add: save_def)

lemma activeContextId_save [simp]: "activeContextId (save s) = activeContextId s"
  by (simp add: save_def)

lemma activeContextId_setBookmarks [simp]: "activeContextId (setBookmarks bs s) = activeContextId s"
  by (simp add: setBookmarks_def)

lemma activeContextId_mutateBookmarks [simp]: "activeContextId (mutateBookmarks bs s) = activeContextId s"
  by (simp add: mutateBookmarks_def split: option.splits)

lemma lookup_setBookmarks_other:
  "c \<noteq> activeContextId s \<Longrightarrow> fmlookup (storage (setBookmarks bs s)) c = fmlookup (storage s) c"
  by (simp add: setBookmarks_def)

lemma lookup_mutateBookmarks_other:
  "c \<noteq> activeContextId s \<Longrightarrow> fmlookup (storage (mutateBookmarks bs s)) c = fmlookup (storage s) c"
  by (simp add: mutateBookmarks_def lookup_setBookmarks_other split: option.splits)

lemma handleTextDocumentChange_frame:
  "activeContextId (snd (handleTextDocumentChange ev s)) = activeContextId s \<and>
   (c \<noteq> activeContextId s \<longrightarrow>
      fmlookup (storage (snd (handleTextDocumentChange ev s))) c = fmlookup (storage s) c)"
  by (simp add: handleTextDocumentChange_def Let_def lookup_setBookmarks_other
      lookup_mutateBookmarks_other split: prod.splits)

lemma cursor_mutateBookmarks [simp]:
  "currentBookmarkIndex (mutateBookmarks bs s) = currentBookmarkIndex s"
  by (simp add: mutateBookmarks_def split: option.splits)

lemma workspaceState_setBookmarks [simp]: "workspaceState (setBookmarks bs s) = workspaceState s"
  by (simp add: setBookmarks_def)

lemma workspaceState_mutateBookmarks [simp]: "workspaceState (mutateBookmarks bs s) = workspaceState s"
  by (simp add: mutateBookmarks_def split: option.splits)

lemma fmupd_same: "fmlookup m k = Some v \<Longrightarrow> fmupd k v m = m"
  by (rule fmap_ext) auto

lemma mutateBookmarks_same [simp]: "mutateBookmarks (getBookmarks s) s = s"
  by (auto simp: mutateBookmarks_def getBookmarks_def setBookmarks_def fmupd_same split: option.splits)

lemma getBookmarks_mutateBookmarks:
  "getBookmarks s \<noteq> [] \<Longrightarrow> getBookmarks (mutateBookmarks bs s) = bs"
  by (simp add: mutateBookmarks_nonempty)

section \<open>Deleting a context\<close>

lemma plain_names [simp]:
  "''default'' \<notin> set objectPrototypeMembers" "''work'' \<notin> set objectPrototypeMembers"
  "''other'' \<notin> set objectPrototypeMembers" "''gone'' \<notin> set objectPrototypeMembers"
  "''constructor'' \<in> set objectPrototypeMembers"
  by (simp_all add: objectPrototypeMembers_def)

lemma truthyProperty_iff:
  "truthyProperty st c \<longleftrightarrow> c \<in> set objectPrototypeMembers \<or> c |\<in>| fmdom st"
  using lookup_None_iff [of st c] by (auto simp: truthyProperty_def)

lemma truthyProperty_key: "c |\<in>| fmdom st \<Longrightarrow> truthyProperty st c"
  by (simp add: truthyProperty_iff)

lemma truthyProperty_plain:
  "c \<notin> set objectPrototypeMembers \<Longrightarrow> truthyProperty st c \<longleftrightarrow> c |\<in>| fmdom st"
  by (simp add: truthyProperty_iff)

text \<open>
  C1 (as the code has it). \<open>deleteContext\<close> applies its checks in the order
  existence, active context, last remaining context. A name that is no context, and
  not the name of a member of \<open>Object.prototype\<close> either, gives \<open>Not_found\<close>;
  an existing context that is the active one gives \<open>Active\<close>; an existing, inactive
  context that is the only one gives \<open>Last\<close>; any other existing context is dropped
  from the storage, the store is saved and the result is \<open>Success\<close>. The store is
  unchanged in the three refusals. On the sole existing context the result is therefore
  \<open>Active\<close> when that context is the active one, and \<open>Last\<close> only when the active
  identifier names no context.
\<close>

theorem deleteContext_cases:
  "(c |\<notin>| fmdom (storage s) \<and> c \<notin> set objectPrototypeMembers \<longrightarrow>
      deleteContext c s = (Not_found, s)) \<and>
   (c |\<in>| fmdom (storage s) \<and> c = activeContextId s \<longrightarrow> deleteContext c s = (Active, s)) \<and>
   (c \<noteq> activeContextId s \<and> fmdom (storage s) = {|c|} \<longrightarrow> deleteContext c s = (Last, s)) \<and>
   (c |\<in>| fmdom (storage s) \<and> c \<noteq> activeContextId s \<and> fmdom (storage s) \<noteq> {|c|} \<longrightarrow>
      deleteContext c s = (Success, save (s\<lparr>storage := fmdrop c (storage s)\<rparr>)))"
proof (intro conjI impI; (elim conjE)?)
  assume "c |\<notin>| fmdom (storage s)" and "c \<notin> set objectPrototypeMembers"
  then show "deleteContext c s = (Not_found, s)"
    by (simp add: deleteContext_def truthyProperty_iff)
next
  assume "c |\<in>| fmdom (storage s)" and "c = activeContextId s"
  then show "deleteContext c s = (Active, s)"
    by (simp add: deleteContext_def truthyProperty_iff)
next
  assume ne: "c \<noteq> activeContextId s" and dom: "fmdom (storage s) = {|c|}"
  from dom have mem: "c |\<in>| fmdom (storage s)" by simp
  with dom have "fcard (fmdom (storage s)) \<le> 1"
    by (simp only: fcard_le1_iff)
  with mem ne show "deleteContext c s = (Last, s)"
    by (simp add: deleteContext_def truthyProperty_key)
next
  assume mem: "c |\<in>| fmdom (storage s)" and ne: "c \<noteq> activeContextId s"
    and dom: "fmdom (storage s) \<noteq> {|c|}"
  from mem dom have "\<not> fcard (fmdom (storage s)) \<le> 1"
    by (simp only: fcard_le1_iff not_False_eq_True)
  with mem ne show "deleteContext c s = (Success, save (s\<lparr>storage := fmdrop c (storage s)\<rparr>))"
    by (simp add: deleteContext_def truthyProperty_key)
qed

text \<open>The four outcomes of \<open>deleteContext\<close> on concrete stores.\<close>

theorem deleteContext_cases_witness:
  "''other'' \<notin> set objectPrototypeMembers \<and>
   deleteContext ''other'' (single_store [] (- 1)) = (Not_found, single_store [] (- 1)) \<and>
   deleteContext ''default'' (single_store [] (- 1)) = (Active, single_store [] (- 1)) \<and>
   deleteContext ''work'' dangling_store = (Last, dangling_store) \<and>
   fst (deleteContext ''work'' (two_store [] [] (- 1))) = Success \<and>
   fmlookup (storage (snd (deleteContext ''work'' (two_store [] [] (- 1))))) ''work'' = None \<and>
   fmlookup (storage (snd (deleteContext ''work'' (two_store [] [] (- 1))))) ''default'' = Some []"
  using deleteContext_cases [of "''other''" "single_store [] (- 1)"]
    deleteContext_cases [of "''default''" "single_store [] (- 1)"]
    deleteContext_cases [of "''work''" dangling_store]
    deleteContext_cases [of "''work''" "two_store [] [] (- 1)"]
  by (simp add: single_store_def dangling_store_def two_store_def save_def)

text \<open>
  The sole existing context of a store whose active identifier names it: the second
  check answers before the third is reached.
\<close>

theorem deleteContext_sole_context_counterexample:
  "fmdom (storage (single_store [] (- 1))) = {|''default''|} \<and>
   fst (deleteContext ''default'' (single_store [] (- 1))) \<noteq> Last"
  by (simp add: deleteContext_def single_store_def truthyProperty_iff)

text \<open>
  The name of a member of \<open>Object.prototype\<close> that is no context passes the existence
  check, which reads the member: with two contexts nothing is deleted, the store is saved
  and the result is \<open>Success\<close>; with one context, not named by the active identifier,
  the result is \<open>Last\<close>.
\<close>

lemma deleteContext_member_name:
  "deleteContext ''constructor'' (two_store [] [] (- 1)) = (Success, save (two_store [] [] (- 1))) \<and>
   deleteContext ''constructor'' dangling_store = (Last, dangling_store)"
proof -
  have "fcard (fmdom (storage (two_store [] [] (- 1)))) = 2"
    by (simp add: two_store_def fcard_finsert_if)
  moreover have "fcard (fmdom (storage dangling_store)) = 1"
    by (simp add: dangling_store_def fcard_finsert_if)
  moreover have "fmdrop ''constructor'' (storage (two_store [] [] (- 1))) = storage (two_store [] [] (- 1))"
    by (rule fmdrop_idle) (simp add: two_store_def)
  moreover have "activeContextId (two_store [] [] (- 1)) = ''default''"
    "activeContextId dangling_store = ''default''"
    by (simp_all add: two_store_def dangling_store_def)
  ultimately show ?thesis
    by (simp add: deleteContext_def truthyProperty_iff)
qed

section \<open>Removing a bookmark\<close>

text \<open>
  C6. When the identifier is found at position \<open>oldIndex\<close> of the active context's
  sequence, \<open>removeBookmark\<close> leaves the sequence without the bookmarks of that
  identifier, which for pairwise distinct identifiers is the sequence without its
  element at \<open>oldIndex\<close>; a cursor greater than \<open>oldIndex\<close> is decremented, a
  cursor equal to it becomes \<open>-1\<close>, a smaller one stays; and
  \<open>getCurrentBookmark\<close> right after never returns a bookmark of the removed
  identifier.
\<close>

theorem removeBookmark_present:
  assumes "findIndex (\<lambda>b. bookmarkId b = bid) (getBookmarks s) = int oldIndex"
  shows "getBookmarks (removeBookmark bid s) = filter (\<lambda>b. bookmarkId b \<noteq> bid) (getBookmarks s) \<and>
     (distinct (map bookmarkId (getBookmarks s)) \<longrightarrow>
           getBookmarks (removeBookmark bid s) = splice_out oldIndex (getBookmarks s)) \<and>
     currentBookmarkIndex (removeBookmark bid s) =
           (if currentBookmarkIndex s > int oldIndex then currentBookmarkIndex s - 1
            else if currentBookmarkIndex s = int oldIndex then - 1
            else currentBookmarkIndex s) \<and>
     (\<forall>b. getCurrentBookmark (removeBookmark bid s) = Some b \<longrightarrow> bookmarkId b \<noteq> bid)"
proof (intro conjI)
  show "getBookmarks (removeBookmark bid s) = filter (\<lambda>b. bookmarkId b \<noteq> bid) (getBookmarks s)"
    by (rule getBookmarks_removeBookmark)
  show "distinct (map bookmarkId (getBookmarks s)) \<longrightarrow>
           getBookmarks (removeBookmark bid s) = splice_out oldIndex (getBookmarks s)"
    using assms filter_distinct_splice[of bookmarkId "getBookmarks s" bid oldIndex]
    by (simp add: getBookmarks_removeBookmark)
  show "currentBookmarkIndex (removeBookmark bid s) =
           (if currentBookmarkIndex s > int oldIndex then currentBookmarkIndex s - 1
            else if currentBookmarkIndex s = int oldIndex then - 1
            else currentBookmarkIndex s)"
    using assms by (simp add: cursor_removeBookmark Let_def)
  show "\<forall>b. getCurrentBookmark (removeBookmark bid s) = Some b \<longrightarrow> bookmarkId b \<noteq> bid"
  proof (intro allI impI)
    fix b assume "getCurrentBookmark (removeBookmark bid s) = Some b"
    then have "b \<in> set (getBookmarks (removeBookmark bid s))" by (rule getCurrentBookmark_mem)
    then show "bookmarkId b \<noteq> bid" by (simp add: getBookmarks_removeBookmark)
  qed
qed

text \<open>The three cases of the cursor rule on the sequence a, b, c with b removed.\<close>

theorem removeBookmark_present_witness:
  "findIndex (\<lambda>b. bookmarkId b = ''b'') (getBookmarks (single_store [bmA, bmB, bmC] 2)) = int 1 \<and>
   distinct (map bookmarkId (getBookmarks (single_store [bmA, bmB, bmC] 2))) \<and>
   getBookmarks (removeBookmark ''b'' (single_store [bmA, bmB, bmC] 2)) = [bmA, bmC] \<and>
   currentBookmarkIndex (removeBookmark ''b'' (single_store [bmA, bmB, bmC] 2)) = 1 \<and>
   getCurrentBookmark (removeBookmark ''b'' (single_store [bmA, bmB, bmC] 2)) = Some bmC \<and>
   currentBookmarkIndex (removeBookmark ''b'' (single_store [bmA, bmB, bmC] 1)) = - 1 \<and>
   getCurrentBookmark (removeBookmark ''b'' (single_store [bmA, bmB, bmC] 1)) = None \<and>
   currentBookmarkIndex (removeBookmark ''b'' (single_store [bmA, bmB, bmC] 0)) = 0"
proof -
  have i: "findIndex (\<lambda>b. bookmarkId b = ''b'') (getBookmarks (single_store [bmA, bmB, bmC] c)) = int 1" for c
    by simp
  have d: "distinct (map bookmarkId (getBookmarks (single_store [bmA, bmB, bmC] 2)))"
    by simp
  note t = removeBookmark_present [OF i]
  have b: "getBookmarks (removeBookmark ''b'' (single_store [bmA, bmB, bmC] c)) = [bmA, bmC]" for c
    using t [of c, THEN conjunct2, THEN conjunct1] by (simp add: splice_out_def)
  have c2: "currentBookmarkIndex (removeBookmark ''b'' (single_store [bmA, bmB, bmC] 2)) = 1"
    using t [of 2, THEN conjunct2, THEN conjunct2, THEN conjunct1] by simp
  have c1: "currentBookmarkIndex (removeBookmark ''b'' (single_store [bmA, bmB, bmC] 1)) = - 1"
    using t [of 1, THEN conjunct2, THEN conjunct2, THEN conjunct1] by simp
  have c0: "currentBookmarkIndex (removeBookmark ''b'' (single_store [bmA, bmB, bmC] 0)) = 0"
    using t [of 0, THEN conjunct2, THEN conjunct2, THEN conjunct1] by simp
  show ?thesis
    using i [of 2] d by (simp add: b c2 c1 c0 getCurrentBookmark_def at_index_def)
qed

text \<open>
  For an identifier that is absent, \<open>findIndex\<close> gives \<open>-1\<close>, which the cursor
  rule takes for a position: the sequence stays, and every cursor from 0 on moves one
  down.
\<close>

lemma removeBookmark_absent:
  assumes "findIndex (\<lambda>b. bookmarkId b = bid) (getBookmarks s) = - 1"
  shows "getBookmarks (removeBookmark bid s) = getBookmarks s \<and>
     currentBookmarkIndex (removeBookmark bid s) =
       (if 0 \<le> currentBookmarkIndex s then currentBookmarkIndex s - 1 else currentBookmarkIndex s)"
proof -
  from assms have "\<forall>b\<in>set (getBookmarks s). bookmarkId b \<noteq> bid"
    by (simp add: findIndex_none_iff)
  then have "filter (\<lambda>b. bookmarkId b \<noteq> bid) (getBookmarks s) = getBookmarks s"
    by (simp add: filter_id_conv)
  with assms show ?thesis
    by (auto simp: getBookmarks_removeBookmark cursor_removeBookmark Let_def)
qed

text \<open>
  C3 (failing input). The identifier \<open>zzz\<close> is absent from the sequence a, b, c,
  so \<open>findIndex\<close> gives \<open>-1\<close>; the cursor, at 2 on c, is greater than
  \<open>-1\<close> and is decremented: the sequence is unchanged and the current bookmark
  is now b.
\<close>

theorem removeBookmark_absent_moves_cursor:
  "findIndex (\<lambda>b. bookmarkId b = ''zzz'') (getBookmarks (single_store [bmA, bmB, bmC] 2)) = - 1 \<and>
   getBookmarks (removeBookmark ''zzz'' (single_store [bmA, bmB, bmC] 2)) = [bmA, bmB, bmC] \<and>
   getCurrentBookmark (single_store [bmA, bmB, bmC] 2) = Some bmC \<and>
   currentBookmarkIndex (removeBookmark ''zzz'' (single_store [bmA, bmB, bmC] 2)) = 1 \<and>
   getCurrentBookmark (removeBookmark ''zzz'' (single_store [bmA, bmB, bmC] 2)) = Some bmB"
  by (simp add: getBookmarks_removeBookmark cursor_removeBookmark
        getCurrentBookmark_def at_index_def Let_def)

section \<open>Navigation with the cursor\<close>




section \<open>Reordering\<close>

text \<open>
  C7 (as the code has it). \<open>reorderBookmarks\<close> does nothing when the dragged
  identifier is not in the active context's sequence. Otherwise the dragged bookmark is
  taken out and the target is looked up among the bookmarks that are left: when it is
  found there, the dragged bookmark is put back immediately before it; when no target
  is given or it is not found there, as when the target is the dragged bookmark itself,
  the dragged bookmark goes to the end. The other bookmarks keep their order, and the
  cursor is the new index of the dragged bookmark, which \<open>getCurrentBookmark\<close> then
  returns.
\<close>

theorem reorderBookmarks_moves:
  "(findIndex (\<lambda>b. bookmarkId b = d) (getBookmarks s) = - 1 \<longrightarrow> reorderBookmarks d t s = s) \<and>
   (findIndex (\<lambda>b. bookmarkId b = d) (getBookmarks s) = int si \<longrightarrow>
      (\<forall>tid ti. t = Some tid \<and>
          findIndex (\<lambda>b. bookmarkId b = tid) (splice_out si (getBookmarks s)) = int ti \<longrightarrow>
            getBookmarks (reorderBookmarks d t s) =
              take ti (splice_out si (getBookmarks s)) @ (getBookmarks s ! si) #
                drop ti (splice_out si (getBookmarks s)) \<and>
            bookmarkId (getBookmarks (reorderBookmarks d t s) ! Suc ti) = tid \<and>
            currentBookmarkIndex (reorderBookmarks d t s) = int ti) \<and>
      (t = None \<or> (\<exists>tid. t = Some tid \<and>
          (\<forall>b \<in> set (splice_out si (getBookmarks s)). bookmarkId b \<noteq> tid)) \<longrightarrow>
            getBookmarks (reorderBookmarks d t s) = splice_out si (getBookmarks s) @ [getBookmarks s ! si] \<and>
            currentBookmarkIndex (reorderBookmarks d t s) = int (length (getBookmarks s)) - 1) \<and>
      getCurrentBookmark (reorderBookmarks d t s) = Some (getBookmarks s ! si) \<and>
      splice_out (nat (currentBookmarkIndex (reorderBookmarks d t s))) (getBookmarks (reorderBookmarks d t s)) =
        splice_out si (getBookmarks s))"
proof (intro conjI impI)
  assume "findIndex (\<lambda>b. bookmarkId b = d) (getBookmarks s) = - 1"
  then show "reorderBookmarks d t s = s" by (simp add: reorderBookmarks_def)
next
  assume si: "findIndex (\<lambda>b. bookmarkId b = d) (getBookmarks s) = int si"
  let ?bs = "getBookmarks s"
  let ?rest = "splice_out si ?bs"
  let ?removed = "?bs ! si"
  let ?s' = "reorderBookmarks d t s"
  note r = reorderBookmarks_found [OF si]
  have len: "si < length ?bs" using si by (rule findIndex_length)
  then have lrest: "length ?rest = length ?bs - 1" by (simp add: splice_out_def)
  show "\<forall>tid ti. t = Some tid \<and> findIndex (\<lambda>b. bookmarkId b = tid) ?rest = int ti \<longrightarrow>
            getBookmarks ?s' = take ti ?rest @ ?removed # drop ti ?rest \<and>
            bookmarkId (getBookmarks ?s' ! Suc ti) = tid \<and>
            currentBookmarkIndex ?s' = int ti"
  proof (intro allI impI, elim conjE)
    fix tid ti
    assume t: "t = Some tid" and ti: "findIndex (\<lambda>b. bookmarkId b = tid) ?rest = int ti"
    have tl: "ti < length ?rest" using ti by (rule findIndex_length)
    have tid: "bookmarkId (?rest ! ti) = tid" using ti by (rule findIndex_nth)
    have g: "getBookmarks ?s' = take ti ?rest @ ?removed # drop ti ?rest"
      using t ti by (simp add: r Let_def splice_in_def)
    have "(take ti ?rest @ ?removed # drop ti ?rest) ! Suc ti = ?rest ! ti"
      using tl by (simp add: nth_append min_def)
    with g tid have "bookmarkId (getBookmarks ?s' ! Suc ti) = tid" by simp
    moreover have "currentBookmarkIndex ?s' = int ti"
      using t ti by (simp add: r Let_def)
    ultimately show "getBookmarks ?s' = take ti ?rest @ ?removed # drop ti ?rest \<and>
            bookmarkId (getBookmarks ?s' ! Suc ti) = tid \<and>
            currentBookmarkIndex ?s' = int ti"
      using g by simp
  qed
  have e: "getBookmarks ?s' = ?rest @ [?removed] \<and> currentBookmarkIndex ?s' = int (length ?bs) - 1"
    if "t = None \<or> (\<exists>tid. t = Some tid \<and> (\<forall>b \<in> set ?rest. bookmarkId b \<noteq> tid))"
  proof -
    from that have "(case t of Some tid \<Rightarrow> findIndex (\<lambda>b. bookmarkId b = tid) ?rest | None \<Rightarrow> - 1) = - 1"
      by (auto simp: findIndex_none_iff)
    then show ?thesis using len lrest by (simp add: r Let_def)
  qed
  show "getBookmarks ?s' = ?rest @ [?removed]"
    if "t = None \<or> (\<exists>tid. t = Some tid \<and> (\<forall>b \<in> set ?rest. bookmarkId b \<noteq> tid))"
    using e [OF that] by simp
  show "currentBookmarkIndex ?s' = int (length ?bs) - 1"
    if "t = None \<or> (\<exists>tid. t = Some tid \<and> (\<forall>b \<in> set ?rest. bookmarkId b \<noteq> tid))"
    using e [OF that] by simp
  obtain k where k: "getBookmarks ?s' = splice_in k ?removed ?rest \<and> currentBookmarkIndex ?s' = int k \<and> k \<le> length ?rest"
  proof (cases "(case t of Some tid \<Rightarrow> findIndex (\<lambda>b. bookmarkId b = tid) ?rest | None \<Rightarrow> - 1) = - 1")
    case True
    then have "getBookmarks ?s' = splice_in (length ?rest) ?removed ?rest \<and>
               currentBookmarkIndex ?s' = int (length ?rest)"
      by (simp add: r Let_def splice_in_def)
    then show ?thesis using that by blast
  next
    case False
    then obtain tid where t: "t = Some tid" by (cases t) auto
    with False have ne: "findIndex (\<lambda>b. bookmarkId b = tid) ?rest \<noteq> - 1" by simp
    then obtain ti where ti: "findIndex (\<lambda>b. bookmarkId b = tid) ?rest = int ti"
      using findIndex_found_nat by blast
    then have "ti < length ?rest" by (rule findIndex_length)
    with t ti have "getBookmarks ?s' = splice_in ti ?removed ?rest \<and>
               currentBookmarkIndex ?s' = int ti \<and> ti \<le> length ?rest"
      by (simp add: r Let_def)
    then show ?thesis using that by blast
  qed
  from k have k1: "getBookmarks ?s' = splice_in k ?removed ?rest"
    and k2: "currentBookmarkIndex ?s' = int k" and k3: "k \<le> length ?rest" by simp_all
  from k3 show "getCurrentBookmark ?s' = Some ?removed"
    by (simp add: getCurrentBookmark_def at_index_def k1 k2)
  from k3 show "splice_out (nat (currentBookmarkIndex ?s')) (getBookmarks ?s') = ?rest"
    by (simp add: k1 k2)
qed

text \<open>In a, b, c: a before c gives b, a, c with the cursor at 1; a with no target gives b, c, a.\<close>

theorem reorderBookmarks_moves_witness:
  "findIndex (\<lambda>b. bookmarkId b = ''a'') (getBookmarks (single_store [bmA, bmB, bmC] (- 1))) = int 0 \<and>
   findIndex (\<lambda>b. bookmarkId b = ''c'')
     (splice_out 0 (getBookmarks (single_store [bmA, bmB, bmC] (- 1)))) = int 1 \<and>
   getBookmarks (reorderBookmarks ''a'' (Some ''c'') (single_store [bmA, bmB, bmC] (- 1))) = [bmB, bmA, bmC] \<and>
   currentBookmarkIndex (reorderBookmarks ''a'' (Some ''c'') (single_store [bmA, bmB, bmC] (- 1))) = 1 \<and>
   getCurrentBookmark (reorderBookmarks ''a'' (Some ''c'') (single_store [bmA, bmB, bmC] (- 1))) = Some bmA \<and>
   getBookmarks (reorderBookmarks ''a'' None (single_store [bmA, bmB, bmC] (- 1))) = [bmB, bmC, bmA] \<and>
   currentBookmarkIndex (reorderBookmarks ''a'' None (single_store [bmA, bmB, bmC] (- 1))) = 2 \<and>
   findIndex (\<lambda>b. bookmarkId b = ''zzz'') (getBookmarks (single_store [bmA, bmB, bmC] (- 1))) = - 1 \<and>
   reorderBookmarks ''zzz'' (Some ''c'') (single_store [bmA, bmB, bmC] (- 1)) = single_store [bmA, bmB, bmC] (- 1)"
proof -
  let ?S = "single_store [bmA, bmB, bmC] (- 1)"
  have si: "findIndex (\<lambda>b. bookmarkId b = ''a'') (getBookmarks ?S) = int 0" by simp
  have ti: "findIndex (\<lambda>b. bookmarkId b = ''c'') (splice_out 0 (getBookmarks ?S)) = int 1"
    by (simp add: splice_out_def)
  have no: "findIndex (\<lambda>b. bookmarkId b = ''zzz'') (getBookmarks ?S) = - 1" by simp
  note m = reorderBookmarks_moves [of "''a''" ?S _ 0, THEN conjunct2, rule_format, OF si]
  have a: "getBookmarks (reorderBookmarks ''a'' (Some ''c'') ?S) = [bmB, bmA, bmC]"
    and b: "currentBookmarkIndex (reorderBookmarks ''a'' (Some ''c'') ?S) = 1"
    using m [of "Some ''c''", THEN conjunct1, rule_format, of "''c''" 1] ti
    by (simp_all add: splice_out_def)
  have c: "getCurrentBookmark (reorderBookmarks ''a'' (Some ''c'') ?S) = Some bmA"
    using m [of "Some ''c''", THEN conjunct2, THEN conjunct2, THEN conjunct1] by simp
  have d: "getBookmarks (reorderBookmarks ''a'' None ?S) = [bmB, bmC, bmA]"
    and e: "currentBookmarkIndex (reorderBookmarks ''a'' None ?S) = 2"
    using m [of None, THEN conjunct2, THEN conjunct1]
    by (simp_all add: splice_out_def)
  have f: "reorderBookmarks ''zzz'' (Some ''c'') ?S = ?S"
    using reorderBookmarks_moves [of "''zzz''" ?S "Some ''c''" 0, THEN conjunct1] no by simp
  from si ti no a b c d e f show ?thesis by simp
qed

text \<open>
  A bookmark dropped onto itself: the target a is in the sequence a, b, c, at index 0,
  but not among the bookmarks that are left once a is taken out. The bookmark goes to
  the end, where nothing follows it.
\<close>

theorem reorderBookmarks_onto_itself_counterexample:
  "findIndex (\<lambda>b. bookmarkId b = ''a'') (getBookmarks (single_store [bmA, bmB, bmC] (- 1))) = 0 \<and>
   getBookmarks (reorderBookmarks ''a'' (Some ''a'') (single_store [bmA, bmB, bmC] (- 1))) = [bmB, bmC, bmA] \<and>
   currentBookmarkIndex (reorderBookmarks ''a'' (Some ''a'') (single_store [bmA, bmB, bmC] (- 1))) = 2"
proof -
  let ?S = "single_store [bmA, bmB, bmC] (- 1)"
  have si: "findIndex (\<lambda>b. bookmarkId b = ''a'') (getBookmarks ?S) = int 0" by simp
  show ?thesis
    using si by (simp add: reorderBookmarks_found [OF si] splice_out_def Let_def)
qed

section \<open>Hydration\<close>

lemma load_migrate:
  assumes "bookmarks_entry ws = Some old" and "old \<noteq> []"
  shows "load ws = save \<lparr>storage = fmupd DEFAULT_CONTEXT old fmempty,
                activeContextId = DEFAULT_CONTEXT, currentBookmarkIndex = - 1,
                workspaceState = ws\<lparr>bookmarks_entry := None, update_calls := update_calls ws + 1\<rparr>\<rparr>"
  using assms by (cases old) (simp_all add: load_def)

lemma truthyProperty_default:
  "truthyProperty st DEFAULT_CONTEXT \<longleftrightarrow> DEFAULT_CONTEXT |\<in>| fmdom st"
  by (simp add: truthyProperty_plain DEFAULT_CONTEXT_def)

lemma load_new_format:
  assumes "bookmarks_entry ws = None \<or> bookmarks_entry ws = Some []"
  shows "load ws =
          (let st = get_bookmark_storage ws; act = get_bookmark_active_context ws
           in if truthyProperty st act then
                \<lparr>storage = st, activeContextId = act,
                 currentBookmarkIndex = - 1, workspaceState = ws\<rparr>
              else if DEFAULT_CONTEXT |\<in>| fmdom st then
                   \<lparr>storage = st, activeContextId = DEFAULT_CONTEXT,
                    currentBookmarkIndex = - 1, workspaceState = ws\<rparr>
              else \<lparr>storage = fmupd DEFAULT_CONTEXT [] st,
                    activeContextId = DEFAULT_CONTEXT,
                    currentBookmarkIndex = - 1, workspaceState = ws\<rparr>)"
  using assms by (auto simp: load_def Let_def truthyProperty_default)

text \<open>
  What \<open>load\<close> does for a stored active identifier that is not the name of a member of
  \<open>Object.prototype\<close>. A non-empty legacy \<open>bookmarks\<close> entry becomes the sequence of
  the context \<open>default\<close>, which is the only context and the active one; the legacy
  entry is cleared and the storage and the active identifier are written at once. Without
  such an entry nothing is written: a missing or empty \<open>bookmark-storage\<close> gives the
  single empty context \<open>default\<close>, active; a stored active identifier that names no
  context of the storage is replaced by \<open>default\<close>, which is added empty when the
  storage has no such context; a stored active identifier that names a context is kept
  with the storage as it is. The active identifier after \<open>load\<close> then names a context of
  the storage, and the cursor is unset.
\<close>

lemma load_hydration:
  "(\<forall>old. bookmarks_entry ws = Some old \<and> old \<noteq> [] \<longrightarrow>
      storage (load ws) = fmupd ''default'' old fmempty \<and>
      activeContextId (load ws) = ''default'' \<and>
      bookmarks_entry (workspaceState (load ws)) = None \<and>
      bookmark_storage_entry (workspaceState (load ws)) = Some (fmupd ''default'' old fmempty) \<and>
      bookmark_active_context_entry (workspaceState (load ws)) = Some ''default'' \<and>
      update_calls (workspaceState (load ws)) = update_calls ws + 3) \<and>
   (bookmarks_entry ws = None \<or> bookmarks_entry ws = Some [] \<longrightarrow>
      workspaceState (load ws) = ws \<and>
      (get_bookmark_active_context ws \<notin> set objectPrototypeMembers \<and>
       (bookmark_storage_entry ws = None \<or> bookmark_storage_entry ws = Some fmempty) \<longrightarrow>
         storage (load ws) = fmupd ''default'' [] fmempty \<and> activeContextId (load ws) = ''default'') \<and>
      (get_bookmark_active_context ws \<notin> set objectPrototypeMembers \<and>
       get_bookmark_active_context ws |\<notin>| fmdom (get_bookmark_storage ws) \<longrightarrow>
         activeContextId (load ws) = ''default'' \<and>
         storage (load ws) =
           (if ''default'' |\<in>| fmdom (get_bookmark_storage ws) then get_bookmark_storage ws
            else fmupd ''default'' [] (get_bookmark_storage ws))) \<and>
      (get_bookmark_active_context ws |\<in>| fmdom (get_bookmark_storage ws) \<longrightarrow>
         activeContextId (load ws) = get_bookmark_active_context ws \<and>
         storage (load ws) = get_bookmark_storage ws)) \<and>
   (activeContextId (load ws) \<notin> set objectPrototypeMembers \<longrightarrow>
      activeContextId (load ws) |\<in>| fmdom (storage (load ws))) \<and>
   currentBookmarkIndex (load ws) = - 1"
proof (intro conjI allI impI; (elim conjE)?)
  fix old assume "bookmarks_entry ws = Some old" and "old \<noteq> []"
  then have l: "load ws = save \<lparr>storage = fmupd DEFAULT_CONTEXT old fmempty,
                activeContextId = DEFAULT_CONTEXT, currentBookmarkIndex = - 1,
                workspaceState = ws\<lparr>bookmarks_entry := None, update_calls := update_calls ws + 1\<rparr>\<rparr>"
    by (rule load_migrate)
  show "storage (load ws) = fmupd ''default'' old fmempty"
    and "activeContextId (load ws) = ''default''"
    and "bookmarks_entry (workspaceState (load ws)) = None"
    and "bookmark_storage_entry (workspaceState (load ws)) = Some (fmupd ''default'' old fmempty)"
    and "bookmark_active_context_entry (workspaceState (load ws)) = Some ''default''"
    and "update_calls (workspaceState (load ws)) = update_calls ws + 3"
    by (simp_all add: l save_def DEFAULT_CONTEXT_def)
next
  assume n: "bookmarks_entry ws = None \<or> bookmarks_entry ws = Some []"
  note l = load_new_format [OF n]
  show "workspaceState (load ws) = ws" by (simp add: l Let_def)
  {
    assume p: "get_bookmark_active_context ws \<notin> set objectPrototypeMembers"
      and e: "bookmark_storage_entry ws = None \<or> bookmark_storage_entry ws = Some fmempty"
    from e have "get_bookmark_storage ws = fmupd ''default'' [] fmempty \<or> get_bookmark_storage ws = fmempty"
      by (auto simp: get_bookmark_storage_def DEFAULT_CONTEXT_def)
    then have "storage (load ws) = fmupd ''default'' [] fmempty \<and> activeContextId (load ws) = ''default''"
      using p by (auto simp: l Let_def truthyProperty_plain DEFAULT_CONTEXT_def)
    then show "storage (load ws) = fmupd ''default'' [] fmempty"
      and "activeContextId (load ws) = ''default''" by simp_all
  }
  {
    assume p: "get_bookmark_active_context ws \<notin> set objectPrototypeMembers"
      and d: "get_bookmark_active_context ws |\<notin>| fmdom (get_bookmark_storage ws)"
    then show "activeContextId (load ws) = ''default''"
      by (simp add: l Let_def truthyProperty_plain DEFAULT_CONTEXT_def)
    from p d show "storage (load ws) =
           (if ''default'' |\<in>| fmdom (get_bookmark_storage ws) then get_bookmark_storage ws
            else fmupd ''default'' [] (get_bookmark_storage ws))"
      by (simp add: l Let_def truthyProperty_plain DEFAULT_CONTEXT_def)
  }
  {
    assume k: "get_bookmark_active_context ws |\<in>| fmdom (get_bookmark_storage ws)"
    then show "activeContextId (load ws) = get_bookmark_active_context ws"
      by (simp add: l Let_def truthyProperty_key)
    from k show "storage (load ws) = get_bookmark_storage ws"
      by (simp add: l Let_def truthyProperty_key)
  }
next
  assume p: "activeContextId (load ws) \<notin> set objectPrototypeMembers"
  show "activeContextId (load ws) |\<in>| fmdom (storage (load ws))"
  proof (cases "bookmarks_entry ws = None \<or> bookmarks_entry ws = Some []")
    case True
    note l = load_new_format [OF True]
    show ?thesis
    proof (cases "truthyProperty (get_bookmark_storage ws) (get_bookmark_active_context ws)")
      case True
      then have a: "activeContextId (load ws) = get_bookmark_active_context ws"
        and s: "storage (load ws) = get_bookmark_storage ws"
        by (simp_all add: l Let_def)
      from p True show ?thesis by (simp add: a s truthyProperty_iff)
    next
      case False
      then show ?thesis by (simp add: l Let_def)
    qed
  next
    case False
    then obtain old where "bookmarks_entry ws = Some old" and "old \<noteq> []" by auto
    then show ?thesis by (simp add: load_migrate save_def)
  qed
next
  show "currentBookmarkIndex (load ws) = - 1"
  proof (cases "bookmarks_entry ws = None \<or> bookmarks_entry ws = Some []")
    case True
    then show ?thesis by (simp add: load_new_format Let_def)
  next
    case False
    then obtain old where "bookmarks_entry ws = Some old" and "old \<noteq> []" by auto
    then show ?thesis by (simp add: load_migrate save_def)
  qed
qed

text \<open>
  Hydration from a store with a legacy entry, from an empty store, and from a store whose
  active identifier \<open>gone\<close> names no context.
\<close>

lemma load_hydration_examples:
  "storage (load legacy_memento) = fmupd ''default'' [bmA, bmB] fmempty \<and>
   activeContextId (load legacy_memento) = ''default'' \<and>
   bookmarks_entry (workspaceState (load legacy_memento)) = None \<and>
   bookmark_storage_entry (workspaceState (load legacy_memento)) =
     Some (fmupd ''default'' [bmA, bmB] fmempty) \<and>
   storage (load empty_memento) = fmupd ''default'' [] fmempty \<and>
   activeContextId (load empty_memento) = ''default'' \<and>
   activeContextId (load tampered_memento) = ''default'' \<and>
   storage (load tampered_memento) = fmupd ''default'' [] (fmupd ''work'' [bmC] fmempty)"
proof -
  have l: "bookmarks_entry legacy_memento = Some [bmA, bmB]" "[bmA, bmB] \<noteq> []"
    by (simp_all add: legacy_memento_def)
  have e: "bookmarks_entry empty_memento = None \<or> bookmarks_entry empty_memento = Some []"
    and t: "bookmarks_entry tampered_memento = None \<or> bookmarks_entry tampered_memento = Some []"
    by (simp_all add: empty_memento_def tampered_memento_def)
  have g: "get_bookmark_storage empty_memento = fmupd ''default'' [] fmempty"
    "get_bookmark_active_context empty_memento = ''default''"
    "get_bookmark_storage tampered_memento = fmupd ''work'' [bmC] fmempty"
    "get_bookmark_active_context tampered_memento = ''gone''"
    by (simp_all add: empty_memento_def tampered_memento_def get_bookmark_storage_def
        get_bookmark_active_context_def DEFAULT_CONTEXT_def)
  show ?thesis
    by (simp add: load_migrate [OF l] load_new_format [OF e] load_new_format [OF t] g
        save_def Let_def truthyProperty_iff DEFAULT_CONTEXT_def)
qed

text \<open>
  C9 (failing input). The workspace state holds the storage with the one context
  \<open>work\<close> and the active identifier \<open>constructor\<close>, which names no context. The
  check of \<open>load\<close> that is to ensure that the active context exists reads
  \<open>this.storage['constructor']\<close>, finds the member of \<open>Object.prototype\<close> and takes
  the context to exist: the identifier is kept, no context \<open>default\<close> is added, and the
  active identifier names no context of the storage after \<open>load\<close>.
\<close>

theorem load_keeps_member_name:
  "get_bookmark_active_context member_name_memento = ''constructor'' \<and>
   get_bookmark_storage member_name_memento = fmupd ''work'' [bmC] fmempty \<and>
   activeContextId (load member_name_memento) = ''constructor'' \<and>
   storage (load member_name_memento) = fmupd ''work'' [bmC] fmempty \<and>
   fmlookup (storage (load member_name_memento)) (activeContextId (load member_name_memento)) = None"
proof -
  have n: "bookmarks_entry member_name_memento = None \<or> bookmarks_entry member_name_memento = Some []"
    by (simp add: member_name_memento_def)
  have g: "get_bookmark_storage member_name_memento = fmupd ''work'' [bmC] fmempty"
    "get_bookmark_active_context member_name_memento = ''constructor''"
    by (simp_all add: member_name_memento_def get_bookmark_storage_def get_bookmark_active_context_def)
  show ?thesis
    by (simp add: load_new_format [OF n] g Let_def truthyProperty_iff)
qed

text \<open>The active identifier after that hydration is no key of the storage.\<close>

theorem load_keeps_member_name_witness:
  "activeContextId (load member_name_memento) |\<notin>| fmdom (storage (load member_name_memento))"
  using load_keeps_member_name by (simp add: lookup_None_iff [symmetric])

section \<open>What the bookmark operations leave alone\<close>

text \<open>
  C10. \<open>addBookmark\<close>, \<open>removeBookmark\<close>, \<open>clearAllBookmarks\<close>,
  \<open>reorderBookmarks\<close> and \<open>handleTextDocumentChange\<close> (also when it ends in an
  exception) leave the sequence of every context other than the active one, and the
  active context identifier, as they were.
\<close>

theorem bookmark_operations_frame:
  assumes "c \<noteq> activeContextId s"
  shows "fmlookup (storage (addBookmark uuid path ln lbl s)) c = fmlookup (storage s) c \<and>
     activeContextId (addBookmark uuid path ln lbl s) = activeContextId s \<and>
     fmlookup (storage (removeBookmark bid s)) c = fmlookup (storage s) c \<and>
     activeContextId (removeBookmark bid s) = activeContextId s \<and>
     fmlookup (storage (clearAllBookmarks s)) c = fmlookup (storage s) c \<and>
     activeContextId (clearAllBookmarks s) = activeContextId s \<and>
     fmlookup (storage (reorderBookmarks draggedId target s)) c = fmlookup (storage s) c \<and>
     activeContextId (reorderBookmarks draggedId target s) = activeContextId s \<and>
     fmlookup (storage (snd (handleTextDocumentChange event s))) c = fmlookup (storage s) c \<and>
     activeContextId (snd (handleTextDocumentChange event s)) = activeContextId s"
proof (intro conjI)
  show "fmlookup (storage (addBookmark uuid path ln lbl s)) c = fmlookup (storage s) c"
    using assms by (simp add: addBookmark_def lookup_mutateBookmarks_other)
  show "activeContextId (addBookmark uuid path ln lbl s) = activeContextId s"
    by (simp add: addBookmark_def)
  show "fmlookup (storage (removeBookmark bid s)) c = fmlookup (storage s) c"
    using assms by (simp add: removeBookmark_def Let_def lookup_setBookmarks_other)
  show "activeContextId (removeBookmark bid s) = activeContextId s"
    by (simp add: removeBookmark_def Let_def)
  show "fmlookup (storage (clearAllBookmarks s)) c = fmlookup (storage s) c"
    using assms by (simp add: clearAllBookmarks_def lookup_setBookmarks_other)
  show "activeContextId (clearAllBookmarks s) = activeContextId s"
    by (simp add: clearAllBookmarks_def)
  show "fmlookup (storage (reorderBookmarks draggedId target s)) c = fmlookup (storage s) c"
    using assms by (simp add: reorderBookmarks_def Let_def lookup_mutateBookmarks_other)
  show "activeContextId (reorderBookmarks draggedId target s) = activeContextId s"
    by (simp add: reorderBookmarks_def Let_def)
  show "fmlookup (storage (snd (handleTextDocumentChange event s))) c = fmlookup (storage s) c"
    using assms handleTextDocumentChange_frame [of event s c] by simp
  show "activeContextId (snd (handleTextDocumentChange event s)) = activeContextId s"
    using handleTextDocumentChange_frame [of event s c] by simp
qed

text \<open>The context \<open>work\<close> of a store whose active context is \<open>default\<close>.\<close>

theorem bookmark_operations_frame_witness:
  "''work'' \<noteq> activeContextId (two_store [bmA, bmB, bmC] [bmD] 1) \<and>
   fmlookup (storage (addBookmark ''e'' ''f'' 3 [] (two_store [bmA, bmB, bmC] [bmD] 1))) ''work'' = Some [bmD] \<and>
   fmlookup (storage (removeBookmark ''a'' (two_store [bmA, bmB, bmC] [bmD] 1))) ''work'' = Some [bmD] \<and>
   fmlookup (storage (clearAllBookmarks (two_store [bmA, bmB, bmC] [bmD] 1))) ''work'' = Some [bmD] \<and>
   fmlookup (storage (reorderBookmarks ''a'' None (two_store [bmA, bmB, bmC] [bmD] 1))) ''work'' = Some [bmD] \<and>
   fmlookup (storage (snd (handleTextDocumentChange (event_of [overwrite_line_1])
      (two_store [bmA, bmB, bmC] [bmD] 1)))) ''work'' = Some [bmD] \<and>
   activeContextId (snd (handleTextDocumentChange (event_of [overwrite_line_1])
      (two_store [bmA, bmB, bmC] [bmD] 1))) = ''default''"
proof -
  have h: "''work'' \<noteq> activeContextId (two_store [bmA, bmB, bmC] [bmD] 1)"
    by (simp add: two_store_def)
  have l: "fmlookup (storage (two_store [bmA, bmB, bmC] [bmD] 1)) ''work'' = Some [bmD]"
    and a: "activeContextId (two_store [bmA, bmB, bmC] [bmD] 1) = ''default''"
    by (simp_all add: two_store_def)
  from bookmark_operations_frame [OF h, of "''e''" "''f''" 3 "[]" "''a''" "''a''" None
      "event_of [overwrite_line_1]"] h l a
  show ?thesis by simp
qed

section \<open>Reconciliation\<close>

subsection \<open>One bookmark under one edit\<close>

lemma editCovers_not_precedes:
  "1 \<le> lineNumber b \<Longrightarrow> editCovers change b \<Longrightarrow> \<not> editPrecedes change b"
  by (auto simp: editCovers_def editPrecedes_def contains_def isBefore_def split: if_splits)

lemma visit_deleted: "bookmarkId b \<in> deletedBookmarks m \<Longrightarrow> visit change b m = (b, m)"
  by (simp add: visit_def)

lemma visit_cases:
  assumes "1 \<le> lineNumber b" and "bookmarkId b \<notin> deletedBookmarks m"
  shows "visit change b m =
     (if editPrecedes change b then
        (b\<lparr>lineNumber := lineNumber b + lineDelta change\<rparr>,
         m\<lparr>changedBookmarks := insert (bookmarkId b) (changedBookmarks m)\<rparr>)
      else if editCovers change b then
        (b, m\<lparr>deletedBookmarks := insert (bookmarkId b) (deletedBookmarks m)\<rparr>)
      else (b, m))"
  using assms by (simp add: visit_def editPrecedes_def editCovers_def Let_def)

lemma visit_untouched:
  "1 \<le> lineNumber b \<Longrightarrow> \<not> editPrecedes change b \<Longrightarrow> \<not> editCovers change b \<Longrightarrow>
     visit change b m = (b, m)"
  by (simp add: visit_def editPrecedes_def editCovers_def Let_def)

lemma visit_threw: "1 \<le> lineNumber b \<Longrightarrow> threw (snd (visit change b m)) = threw m"
  by (simp add: visit_def Let_def)

lemma visit_keeps: 
  "bookmarkId (fst (visit change b m)) = bookmarkId b \<and> fsPath (fst (visit change b m)) = fsPath b
    \<and> label (fst (visit change b m)) = label b"
  by (simp add: visit_def Let_def)

lemma lineDelta_lower: "- int (line (range_end (change_range change))) \<le> lineDelta change"
  by (simp add: lineDelta_def linesAdded_def linesRemoved_def)

lemma visit_lineNumber: "1 \<le> lineNumber b \<Longrightarrow> 1 \<le> lineNumber (fst (visit change b m))"
  using lineDelta_lower [of change] by (auto simp: visit_def Let_def)

lemma visit_marks_mono:
  "changedBookmarks m \<subseteq> changedBookmarks (snd (visit change b m)) \<and>
   deletedBookmarks m \<subseteq> deletedBookmarks (snd (visit change b m))"
  by (auto simp: visit_def Let_def)

lemma visit_deleted_upper:
  "deletedBookmarks (snd (visit change b m)) \<subseteq> insert (bookmarkId b) (deletedBookmarks m)"
  by (auto simp: visit_def Let_def)

subsection \<open>One edit over the sequence\<close>

lemma visitAll_Cons:
  "visitAll path change (b # bs) m =
     (if threw m \<or> fsPath b \<noteq> path then
        (b # fst (visitAll path change bs m), snd (visitAll path change bs m))
      else
        (fst (visit change b m) # fst (visitAll path change bs (snd (visit change b m))),
         snd (visitAll path change bs (snd (visit change b m)))))"
  by (simp split: prod.splits)

lemma length_visitAll [simp]: "length (fst (visitAll path change bs m)) = length bs"
  by (induction bs arbitrary: m) (simp_all add: visitAll_Cons del: visitAll.simps(2))

lemma visitAll_marks_mono:
  "changedBookmarks m \<subseteq> changedBookmarks (snd (visitAll path change bs m)) \<and>
   deletedBookmarks m \<subseteq> deletedBookmarks (snd (visitAll path change bs m))"
proof (induction bs arbitrary: m)
  case Nil
  then show ?case by simp
next
  case (Cons b bs)
  show ?case
    using Cons.IH [of m] Cons.IH [of "snd (visit change b m)"] visit_marks_mono [of m change b]
    by (simp add: visitAll_Cons del: visitAll.simps(2)) blast
qed

lemma visitAll_deleted_upper:
  "deletedBookmarks (snd (visitAll path change bs m)) \<subseteq> deletedBookmarks m \<union> bookmarkId ` set bs"
proof (induction bs arbitrary: m)
  case Nil
  then show ?case by simp
next
  case (Cons b bs)
  show ?case
    using Cons.IH [of m] Cons.IH [of "snd (visit change b m)"] visit_deleted_upper [of change b m]
    by (simp add: visitAll_Cons del: visitAll.simps(2)) blast
qed

lemma visitAll_no_throw:
  "\<not> threw m \<Longrightarrow> \<forall>b\<in>set bs. fsPath b = path \<longrightarrow> 1 \<le> lineNumber b \<Longrightarrow>
     \<not> threw (snd (visitAll path change bs m))"
proof (induction bs arbitrary: m)
  case Nil
  then show ?case by simp
next
  case (Cons b bs)
  show ?case
  proof (cases "fsPath b \<noteq> path")
    case True
    then show ?thesis using Cons.IH [of m] Cons.prems
      by (simp add: visitAll_Cons del: visitAll.simps(2))
  next
    case False
    with visit_threw [of b change m] Cons.prems have "\<not> threw (snd (visit change b m))" by simp
    with Cons.IH [of "snd (visit change b m)"] Cons.prems False show ?thesis
      by (simp add: visitAll_Cons del: visitAll.simps(2))
  qed
qed

lemma visitAll_wellformed:
  "\<forall>b\<in>set bs. fsPath b = path \<longrightarrow> 1 \<le> lineNumber b \<Longrightarrow>
     \<forall>b\<in>set (fst (visitAll path change bs m)). fsPath b = path \<longrightarrow> 1 \<le> lineNumber b"
proof (induction bs arbitrary: m)
  case Nil
  then show ?case by simp
next
  case (Cons b bs)
  show ?case
  proof (cases "threw m \<or> fsPath b \<noteq> path")
    case True
    then show ?thesis using Cons.IH [of m] Cons.prems
      by (simp add: visitAll_Cons del: visitAll.simps(2))
  next
    case False
    with visit_lineNumber [of b change m] Cons.prems
    have "1 \<le> lineNumber (fst (visit change b m))" by simp
    with Cons.IH [of "snd (visit change b m)"] Cons.prems False show ?thesis
      by (simp add: visitAll_Cons del: visitAll.simps(2))
  qed
qed

lemma visitAll_untouched:
  "\<forall>b\<in>set bs. fsPath b = path \<longrightarrow>
      1 \<le> lineNumber b \<and> \<not> editPrecedes change b \<and> \<not> editCovers change b \<Longrightarrow>
     visitAll path change bs m = (bs, m)"
  by (induction bs arbitrary: m) (simp_all add: visit_untouched visitAll_Cons del: visitAll.simps(2))

lemma visit_touched:
  assumes "1 \<le> lineNumber b" and "editPrecedes change b \<or> editCovers change b"
  shows "changedBookmarks (snd (visit change b m)) \<noteq> {} \<or>
         deletedBookmarks (snd (visit change b m)) \<noteq> {}"
proof (cases "bookmarkId b \<in> deletedBookmarks m")
  case True
  then show ?thesis by (auto simp: visit_deleted)
next
  case False
  from visit_cases [OF assms(1) False, of change] assms(2) show ?thesis
    by (auto split: if_splits)
qed

lemma visitAll_touched:
  "\<not> threw m \<Longrightarrow> \<forall>b\<in>set bs. fsPath b = path \<longrightarrow> 1 \<le> lineNumber b \<Longrightarrow>
   \<exists>b\<in>set bs. fsPath b = path \<and> (editPrecedes change b \<or> editCovers change b) \<Longrightarrow>
     changedBookmarks (snd (visitAll path change bs m)) \<noteq> {} \<or>
     deletedBookmarks (snd (visitAll path change bs m)) \<noteq> {}"
proof (induction bs arbitrary: m)
  case Nil
  then show ?case by simp
next
  case (Cons b bs)
  show ?case
  proof (cases "fsPath b = path \<and> (editPrecedes change b \<or> editCovers change b)")
    case True
    have wf: "1 \<le> lineNumber b" using True Cons.prems by simp
    from visit_touched [OF wf, of change m] True
    have "changedBookmarks (snd (visit change b m)) \<noteq> {} \<or>
          deletedBookmarks (snd (visit change b m)) \<noteq> {}" by simp
    with visitAll_marks_mono [of "snd (visit change b m)" path change bs] True Cons.prems(1)
    show ?thesis by (simp add: visitAll_Cons del: visitAll.simps(2)) blast
  next
    case False
    with Cons.prems have ex: "\<exists>b\<in>set bs. fsPath b = path \<and> (editPrecedes change b \<or> editCovers change b)"
      by auto
    show ?thesis
    proof (cases "fsPath b = path")
      case True
      with False Cons.prems have "visit change b m = (b, m)" by (simp add: visit_untouched)
      with Cons.IH [of m] Cons.prems ex True show ?thesis
        by (simp add: visitAll_Cons del: visitAll.simps(2))
    next
      case False
      with Cons.IH [of m] Cons.prems ex show ?thesis
        by (simp add: visitAll_Cons del: visitAll.simps(2))
    qed
  qed
qed

lemma visitAll_skip:
  "i < length bs \<Longrightarrow> bookmarkId (bs ! i) \<in> deletedBookmarks m \<Longrightarrow>
     fst (visitAll path change bs m) ! i = bs ! i"
proof (induction bs arbitrary: m i)
  case Nil
  then show ?case by simp
next
  case (Cons b bs)
  show ?case
  proof (cases i)
    case 0
    with Cons.prems show ?thesis
      by (simp add: visitAll_Cons visit_deleted del: visitAll.simps(2))
  next
    case (Suc j)
    with Cons.prems have j: "j < length bs" and d: "bookmarkId (bs ! j) \<in> deletedBookmarks m"
      by simp_all
    from d visit_marks_mono [of m change b]
    have d': "bookmarkId (bs ! j) \<in> deletedBookmarks (snd (visit change b m))" by blast
    from Cons.IH [OF j d] Cons.IH [OF j d'] Suc show ?thesis
      by (simp add: visitAll_Cons del: visitAll.simps(2))
  qed
qed

lemma visitAll_nth:
  assumes "distinct (map bookmarkId bs)" and "\<not> threw m"
    and "\<forall>b\<in>set bs. fsPath b = path \<longrightarrow> 1 \<le> lineNumber b"
    and "i < length bs" and "fsPath (bs ! i) = path"
    and "bookmarkId (bs ! i) \<notin> deletedBookmarks m"
  shows "fst (visitAll path change bs m) ! i =
           (if editPrecedes change (bs ! i)
            then (bs ! i)\<lparr>lineNumber := lineNumber (bs ! i) + lineDelta change\<rparr> else bs ! i) \<and>
         (bookmarkId (bs ! i) \<in> deletedBookmarks (snd (visitAll path change bs m)) \<longleftrightarrow>
            \<not> editPrecedes change (bs ! i) \<and> editCovers change (bs ! i)) \<and>
         (editPrecedes change (bs ! i) \<longrightarrow>
            bookmarkId (bs ! i) \<in> changedBookmarks (snd (visitAll path change bs m)))"
  using assms
proof (induction bs arbitrary: m i)
  case Nil
  then show ?case by simp
next
  case (Cons b bs)
  show ?case
  proof (cases i)
    case 0
    with Cons.prems have aff: "fsPath b = path" and nd: "bookmarkId b \<notin> deletedBookmarks m"
      and wf: "1 \<le> lineNumber b" and fresh: "bookmarkId b \<notin> bookmarkId ` set bs"
      by simp_all
    let ?m1 = "snd (visit change b m)"
    note v = visit_cases [OF wf nd, of change]
    have up: "deletedBookmarks (snd (visitAll path change bs ?m1)) \<subseteq> deletedBookmarks ?m1 \<union> bookmarkId ` set bs"
      by (rule visitAll_deleted_upper)
    have mono: "changedBookmarks ?m1 \<subseteq> changedBookmarks (snd (visitAll path change bs ?m1)) \<and>
                deletedBookmarks ?m1 \<subseteq> deletedBookmarks (snd (visitAll path change bs ?m1))"
      by (rule visitAll_marks_mono)
    have d: "bookmarkId b \<in> deletedBookmarks (snd (visitAll path change bs ?m1)) \<longleftrightarrow>
             bookmarkId b \<in> deletedBookmarks ?m1"
      using up mono fresh by blast
    have d1: "bookmarkId b \<in> deletedBookmarks ?m1 \<longleftrightarrow> \<not> editPrecedes change b \<and> editCovers change b"
      using nd by (simp add: v)
    have c1: "editPrecedes change b \<longrightarrow> bookmarkId b \<in> changedBookmarks ?m1"
      by (simp add: v)
    have f: "fst (visit change b m) =
           (if editPrecedes change b then b\<lparr>lineNumber := lineNumber b + lineDelta change\<rparr> else b)"
      by (simp add: v)
    from 0 aff Cons.prems(2) d d1 c1 f mono show ?thesis
      by (simp add: visitAll_Cons del: visitAll.simps(2)) blast
  next
    case (Suc j)
    let ?m1 = "if threw m \<or> fsPath b \<noteq> path then m else snd (visit change b m)"
    from Suc Cons.prems have j: "j < length bs" and aff: "fsPath (bs ! j) = path"
      and nd: "bookmarkId (bs ! j) \<notin> deletedBookmarks m"
      and dist: "distinct (map bookmarkId bs)" and ne: "bookmarkId b \<noteq> bookmarkId (bs ! j)"
      and wfs: "\<forall>b\<in>set bs. fsPath b = path \<longrightarrow> 1 \<le> lineNumber b"
      by auto
    have nt: "\<not> threw ?m1"
      using Cons.prems(2,3) visit_threw [of b change m] by simp
    have nd1: "bookmarkId (bs ! j) \<notin> deletedBookmarks ?m1"
      using nd ne visit_deleted_upper [of change b m] by auto
    have step: "fst (visitAll path change (b # bs) m) ! i = fst (visitAll path change bs ?m1) ! j"
      "snd (visitAll path change (b # bs) m) = snd (visitAll path change bs ?m1)"
      using Suc by (simp_all add: visitAll_Cons del: visitAll.simps(2))
    from Cons.IH [OF dist nt wfs j aff nd1] step Suc show ?thesis by simp
  qed
qed

subsection \<open>The batch of edits\<close>

lemma applyChanges_Cons:
  "applyChanges path (change # changes) bs m =
     applyChanges path changes (fst (visitAll path change bs m)) (snd (visitAll path change bs m))"
  by (simp split: prod.splits)

lemma length_applyChanges [simp]: "length (fst (applyChanges path changes bs m)) = length bs"
  by (induction changes arbitrary: bs m) (simp_all add: applyChanges_Cons del: applyChanges.simps(2))

lemma applyChanges_marks_mono:
  "changedBookmarks m \<subseteq> changedBookmarks (snd (applyChanges path changes bs m)) \<and>
   deletedBookmarks m \<subseteq> deletedBookmarks (snd (applyChanges path changes bs m))"
proof (induction changes arbitrary: bs m)
  case Nil
  then show ?case by simp
next
  case (Cons change changes)
  show ?case
    using Cons.IH [of "snd (visitAll path change bs m)" "fst (visitAll path change bs m)"]
      visitAll_marks_mono [of m path change bs]
    by (simp add: applyChanges_Cons del: applyChanges.simps(2)) blast
qed

lemma applyChanges_skip:
  "i < length bs \<Longrightarrow> bookmarkId (bs ! i) \<in> deletedBookmarks m \<Longrightarrow>
     fst (applyChanges path changes bs m) ! i = bs ! i \<and>
     bookmarkId (bs ! i) \<in> deletedBookmarks (snd (applyChanges path changes bs m))"
proof (induction changes arbitrary: bs m)
  case Nil
  then show ?case by simp
next
  case (Cons change changes)
  let ?bs1 = "fst (visitAll path change bs m)" and ?m1 = "snd (visitAll path change bs m)"
  have same: "?bs1 ! i = bs ! i" using Cons.prems by (rule visitAll_skip)
  have "bookmarkId (bs ! i) \<in> deletedBookmarks ?m1"
    using Cons.prems(2) visitAll_marks_mono [of m path change bs] by blast
  with same have d: "bookmarkId (?bs1 ! i) \<in> deletedBookmarks ?m1" by simp
  have l: "i < length ?bs1" using Cons.prems(1) by simp
  from Cons.IH [OF l d] same show ?case
    by (simp add: applyChanges_Cons del: applyChanges.simps(2))
qed

lemma applyChanges_no_throw:
  "\<not> threw m \<Longrightarrow> \<forall>b\<in>set bs. fsPath b = path \<longrightarrow> 1 \<le> lineNumber b \<Longrightarrow>
     \<not> threw (snd (applyChanges path changes bs m)) \<and>
     (\<forall>b\<in>set (fst (applyChanges path changes bs m)). fsPath b = path \<longrightarrow> 1 \<le> lineNumber b)"
proof (induction changes arbitrary: bs m)
  case Nil
  then show ?case by simp
next
  case (Cons change changes)
  have "\<not> threw (snd (visitAll path change bs m))"
    using Cons.prems by (rule visitAll_no_throw)
  moreover have "\<forall>b\<in>set (fst (visitAll path change bs m)). fsPath b = path \<longrightarrow> 1 \<le> lineNumber b"
    using Cons.prems(2) by (rule visitAll_wellformed)
  ultimately show ?case using Cons.IH
    by (simp add: applyChanges_Cons del: applyChanges.simps(2))
qed

lemma applyChanges_untouched:
  "\<forall>change\<in>set changes. \<forall>b\<in>set bs. fsPath b = path \<longrightarrow>
      1 \<le> lineNumber b \<and> \<not> editPrecedes change b \<and> \<not> editCovers change b \<Longrightarrow>
     applyChanges path changes bs m = (bs, m)"
  by (induction changes arbitrary: bs m)
     (simp_all add: visitAll_untouched applyChanges_Cons del: applyChanges.simps(2))

lemma applyChanges_touched:
  "\<not> threw m \<Longrightarrow> \<forall>b\<in>set bs. fsPath b = path \<longrightarrow> 1 \<le> lineNumber b \<Longrightarrow>
   \<exists>change\<in>set changes. \<exists>b\<in>set bs. fsPath b = path \<and> (editPrecedes change b \<or> editCovers change b) \<Longrightarrow>
     changedBookmarks (snd (applyChanges path changes bs m)) \<noteq> {} \<or>
     deletedBookmarks (snd (applyChanges path changes bs m)) \<noteq> {}"
proof (induction changes arbitrary: bs m)
  case Nil
  then show ?case by simp
next
  case (Cons change changes)
  let ?bs1 = "fst (visitAll path change bs m)" and ?m1 = "snd (visitAll path change bs m)"
  show ?case
  proof (cases "\<exists>b\<in>set bs. fsPath b = path \<and> (editPrecedes change b \<or> editCovers change b)")
    case True
    with Cons.prems(1,2) have "changedBookmarks ?m1 \<noteq> {} \<or> deletedBookmarks ?m1 \<noteq> {}"
      by (rule visitAll_touched)
    with applyChanges_marks_mono [of ?m1 path changes ?bs1] show ?thesis
      by (simp add: applyChanges_Cons del: applyChanges.simps(2)) blast
  next
    case False
    with Cons.prems(2) have "visitAll path change bs m = (bs, m)"
      by (intro visitAll_untouched) blast
    moreover from False Cons.prems(3)
    have "\<exists>change\<in>set changes. \<exists>b\<in>set bs. fsPath b = path \<and> (editPrecedes change b \<or> editCovers change b)"
      by auto
    ultimately show ?thesis using Cons.IH [OF Cons.prems(1,2)]
      by (simp add: applyChanges_Cons del: applyChanges.simps(2))
  qed
qed

subsection \<open>Labels\<close>

lemma relabelAll_Cons:
  "relabelAll doc (b # bs) m =
     (if threw m \<or> \<not> (fsPath b = uri_fsPath doc \<and> bookmarkId b \<notin> deletedBookmarks m) then
        (b # fst (relabelAll doc bs m), snd (relabelAll doc bs m))
      else
        (fst (relabel doc b m) # fst (relabelAll doc bs (snd (relabel doc b m))),
         snd (relabelAll doc bs (snd (relabel doc b m)))))"
  by (simp split: prod.splits)

lemma relabel_cases:
  "1 \<le> lineNumber b \<Longrightarrow>
     relabel doc b m =
       (if labelStale doc b then
          (b\<lparr>label := trim (doc_lines doc ! nat (lineNumber b - 1))\<rparr>,
           m\<lparr>changedBookmarks := insert (bookmarkId b) (changedBookmarks m)\<rparr>)
        else (b, m))"
  by (simp add: relabel_def labelStale_def Let_def)

lemma relabel_marks:
  "1 \<le> lineNumber b \<Longrightarrow>
     threw (snd (relabel doc b m)) = threw m \<and>
     deletedBookmarks (snd (relabel doc b m)) = deletedBookmarks m \<and>
     changedBookmarks m \<subseteq> changedBookmarks (snd (relabel doc b m))"
  by (auto simp: relabel_cases)

lemma relabelAll_marks:
  "\<not> threw m \<Longrightarrow>
   \<forall>b\<in>set bs. fsPath b = uri_fsPath doc \<longrightarrow> 1 \<le> lineNumber b \<Longrightarrow>
     \<not> threw (snd (relabelAll doc bs m)) \<and>
     deletedBookmarks (snd (relabelAll doc bs m)) = deletedBookmarks m \<and>
     changedBookmarks m \<subseteq> changedBookmarks (snd (relabelAll doc bs m))"
proof (induction bs arbitrary: m)
  case Nil
  then show ?case by simp
next
  case (Cons b bs)
  show ?case
  proof (cases "fsPath b = uri_fsPath doc \<and> bookmarkId b \<notin> deletedBookmarks m")
    case True
    with Cons.prems have wf: "1 \<le> lineNumber b" by simp
    note r = relabel_marks [OF wf, of doc m]
    with Cons.prems have "\<not> threw (snd (relabel doc b m))" by simp
    from Cons.IH [OF this] Cons.prems(2) r True Cons.prems(1) show ?thesis
      by (simp add: relabelAll_Cons del: relabelAll.simps(2)) blast
  next
    case False
    with Cons.IH [OF Cons.prems(1)] Cons.prems(2) show ?thesis
      by (simp add: relabelAll_Cons del: relabelAll.simps(2))
  qed
qed

lemma relabelAll_fresh:
  "\<forall>b\<in>set bs. fsPath b = uri_fsPath doc \<and> bookmarkId b \<notin> deletedBookmarks m \<longrightarrow>
      1 \<le> lineNumber b \<and> \<not> labelStale doc b \<Longrightarrow>
     relabelAll doc bs m = (bs, m)"
  by (induction bs arbitrary: m)
     (simp_all add: relabel_cases relabelAll_Cons del: relabelAll.simps(2))

lemma relabelAll_stale:
  "\<not> threw m \<Longrightarrow> \<forall>b\<in>set bs. fsPath b = uri_fsPath doc \<longrightarrow> 1 \<le> lineNumber b \<Longrightarrow>
   \<exists>b\<in>set bs. fsPath b = uri_fsPath doc \<and> bookmarkId b \<notin> deletedBookmarks m \<and> labelStale doc b \<Longrightarrow>
     changedBookmarks (snd (relabelAll doc bs m)) \<noteq> {}"
proof (induction bs arbitrary: m)
  case Nil
  then show ?case by simp
next
  case (Cons b bs)
  show ?case
  proof (cases "fsPath b = uri_fsPath doc \<and> bookmarkId b \<notin> deletedBookmarks m")
    case True
    with Cons.prems have wf: "1 \<le> lineNumber b" by simp
    note r = relabel_marks [OF wf, of doc m]
    with Cons.prems have nt: "\<not> threw (snd (relabel doc b m))" by simp
    have wfs: "\<forall>b\<in>set bs. fsPath b = uri_fsPath doc \<longrightarrow> 1 \<le> lineNumber b"
      using Cons.prems(2) by simp
    show ?thesis
    proof (cases "labelStale doc b")
      case True
      then have "changedBookmarks (snd (relabel doc b m)) \<noteq> {}" by (simp add: relabel_cases [OF wf])
      with relabelAll_marks [OF nt wfs] \<open>fsPath b = uri_fsPath doc \<and> bookmarkId b \<notin> deletedBookmarks m\<close>
        Cons.prems(1)
      show ?thesis by (simp add: relabelAll_Cons del: relabelAll.simps(2)) blast
    next
      case False
      then have same: "relabel doc b m = (b, m)" by (simp add: relabel_cases [OF wf])
      from False Cons.prems(3)
      have "\<exists>b\<in>set bs. fsPath b = uri_fsPath doc \<and> bookmarkId b \<notin> deletedBookmarks m \<and> labelStale doc b"
        by auto
      from Cons.IH [OF Cons.prems(1) wfs this] same True Cons.prems(1) show ?thesis
        by (simp add: relabelAll_Cons del: relabelAll.simps(2))
    qed
  next
    case False
    with Cons.prems(3)
    have "\<exists>b\<in>set bs. fsPath b = uri_fsPath doc \<and> bookmarkId b \<notin> deletedBookmarks m \<and> labelStale doc b"
      by auto
    with Cons.IH [OF Cons.prems(1)] Cons.prems(2) False show ?thesis
      by (simp add: relabelAll_Cons del: relabelAll.simps(2))
  qed
qed

subsection \<open>The whole method\<close>

lemma handleTextDocumentChange_unfold:
  "handleTextDocumentChange event s =
     (if filter (\<lambda>b. fsPath b = uri_fsPath (document event)) (getBookmarks s) = [] then (Returned False, s)
      else
        (let r1 = applyChanges (uri_fsPath (document event)) (contentChanges event) (getBookmarks s)
                    \<lparr>changedBookmarks = {}, deletedBookmarks = {}, threw = False\<rparr>
         in if threw (snd r1) then (Threw, mutateBookmarks (fst r1) s)
            else
              (let s1 = (if deletedBookmarks (snd r1) \<noteq> {}
                         then setBookmarks (filter (\<lambda>b. bookmarkId b \<notin> deletedBookmarks (snd r1)) (fst r1)) s
                         else mutateBookmarks (fst r1) s);
                   r2 = relabelAll (document event) (getBookmarks s1) (snd r1);
                   s2 = mutateBookmarks (fst r2) s1
               in if threw (snd r2) then (Threw, s2)
                  else if changedBookmarks (snd r2) \<noteq> {} \<or> deletedBookmarks (snd r2) \<noteq> {}
                  then (Returned True, save s2)
                  else (Returned False, s2))))"
  by (simp add: handleTextDocumentChange_def Let_def split: prod.splits)

subsection \<open>The rule of one edit\<close>



subsection \<open>What the method reports\<close>

text \<open>
  The flag. For bookmarks of the edited file with line numbers from 1 the method
  returns normally, and it returns true exactly when some edit of the batch ends before,
  or covers the start of, the line of a bookmark of the edited file in the active
  context, or the label of such a bookmark is not the trimmed text of its line. When it
  returns true the store has been saved; when it returns false the store is what it
  was.
\<close>

lemma handleTextDocumentChange_flag:
  assumes wf: "\<forall>b\<in>set (getBookmarks s). fsPath b = uri_fsPath (document event) \<longrightarrow> 1 \<le> lineNumber b"
  shows "fst (handleTextDocumentChange event s) =
           Returned
             ((\<exists>change\<in>set (contentChanges event). \<exists>b\<in>set (getBookmarks s).
                  fsPath b = uri_fsPath (document event) \<and>
                  (editPrecedes change b \<or> editCovers change b)) \<or>
              (\<exists>b\<in>set (getBookmarks s).
                  fsPath b = uri_fsPath (document event) \<and> labelStale (document event) b)) \<and>
         (fst (handleTextDocumentChange event s) = Returned True \<longrightarrow>
            update_calls (workspaceState (snd (handleTextDocumentChange event s))) =
              update_calls (workspaceState s) + 2 \<and>
            bookmark_storage_entry (workspaceState (snd (handleTextDocumentChange event s))) =
              Some (storage (snd (handleTextDocumentChange event s))) \<and>
            bookmark_active_context_entry (workspaceState (snd (handleTextDocumentChange event s))) =
              Some (activeContextId (snd (handleTextDocumentChange event s)))) \<and>
         (fst (handleTextDocumentChange event s) = Returned False \<longrightarrow>
            snd (handleTextDocumentChange event s) = s) \<and>
         (filter (\<lambda>b. fsPath b = uri_fsPath (document event)) (getBookmarks s) = [] \<longrightarrow>
            handleTextDocumentChange event s = (Returned False, s))"
proof -
  let ?path = "uri_fsPath (document event)"
  let ?bs = "getBookmarks s"
  let ?m0 = "\<lparr>changedBookmarks = {}, deletedBookmarks = {}, threw = False\<rparr>"
  let ?P = "\<exists>change\<in>set (contentChanges event). \<exists>b\<in>set ?bs.
              fsPath b = ?path \<and> (editPrecedes change b \<or> editCovers change b)"
  let ?Q = "\<exists>b\<in>set ?bs. fsPath b = ?path \<and> labelStale (document event) b"
  let ?r1 = "applyChanges ?path (contentChanges event) ?bs ?m0"
  let ?s1 = "if deletedBookmarks (snd ?r1) \<noteq> {}
             then setBookmarks (filter (\<lambda>b. bookmarkId b \<notin> deletedBookmarks (snd ?r1)) (fst ?r1)) s
             else mutateBookmarks (fst ?r1) s"
  let ?r2 = "relabelAll (document event) (getBookmarks ?s1) (snd ?r1)"
  let ?s2 = "mutateBookmarks (fst ?r2) ?s1"
  note u = handleTextDocumentChange_unfold [of event s]
  have nt0: "\<not> threw ?m0" by simp
  from applyChanges_no_throw [OF nt0 wf, of "contentChanges event"]
  have nt1: "\<not> threw (snd ?r1)"
    and wf1: "\<forall>b\<in>set (fst ?r1). fsPath b = ?path \<longrightarrow> 1 \<le> lineNumber b" by simp_all
  have persisted: "update_calls (workspaceState (save ?s2)) = update_calls (workspaceState s) + 2 \<and>
      bookmark_storage_entry (workspaceState (save ?s2)) = Some (storage (save ?s2)) \<and>
      bookmark_active_context_entry (workspaceState (save ?s2)) = Some (activeContextId (save ?s2))"
    by (simp add: save_def)
  have empty: "handleTextDocumentChange event s = (Returned False, s)"
    if "filter (\<lambda>b. fsPath b = ?path) ?bs = []"
    using that by (simp add: u)
  have neither: "\<not> ?P \<and> \<not> ?Q" if "filter (\<lambda>b. fsPath b = ?path) ?bs = []"
    using that by (auto simp: filter_empty_conv)
  consider (none) "filter (\<lambda>b. fsPath b = ?path) ?bs = []"
    | (touched) "filter (\<lambda>b. fsPath b = ?path) ?bs \<noteq> []" "?P"
    | (stale) "filter (\<lambda>b. fsPath b = ?path) ?bs \<noteq> []" "\<not> ?P" "?Q"
    | (idle) "filter (\<lambda>b. fsPath b = ?path) ?bs \<noteq> []" "\<not> ?P" "\<not> ?Q"
    by blast
  then have main: "handleTextDocumentChange event s =
      (if ?P \<or> ?Q then (Returned True, save ?s2) else (Returned False, s))"
  proof cases
    case none
    with empty neither show ?thesis by simp
  next
    case touched
    have ne: "?bs \<noteq> []" using touched(1) by auto
    from applyChanges_touched [OF nt0 wf touched(2)]
    have m1: "changedBookmarks (snd ?r1) \<noteq> {} \<or> deletedBookmarks (snd ?r1) \<noteq> {}" .
    have g1: "getBookmarks ?s1 = filter (\<lambda>b. bookmarkId b \<notin> deletedBookmarks (snd ?r1)) (fst ?r1)"
      using ne by (simp add: getBookmarks_mutateBookmarks)
    have wf2: "\<forall>b\<in>set (getBookmarks ?s1). fsPath b = uri_fsPath (document event) \<longrightarrow> 1 \<le> lineNumber b"
      using wf1 by (simp add: g1)
    from relabelAll_marks [OF nt1 wf2]
    have nt2: "\<not> threw (snd ?r2)"
      and d2: "deletedBookmarks (snd ?r2) = deletedBookmarks (snd ?r1)"
      and c2: "changedBookmarks (snd ?r1) \<subseteq> changedBookmarks (snd ?r2)" by simp_all
    from m1 d2 c2 have "changedBookmarks (snd ?r2) \<noteq> {} \<or> deletedBookmarks (snd ?r2) \<noteq> {}"
      by auto
    with touched nt1 nt2 show ?thesis by (simp add: u Let_def)
  next
    case stale
    have r1: "?r1 = (?bs, ?m0)"
      using wf stale(2) by (intro applyChanges_untouched) blast
    have s1: "?s1 = s" by (simp add: r1)
    from relabelAll_marks [OF nt0 wf] have nt2: "\<not> threw (snd (relabelAll (document event) ?bs ?m0))"
      by simp
    from stale(3) have "\<exists>b\<in>set ?bs. fsPath b = ?path \<and> bookmarkId b \<notin> deletedBookmarks ?m0 \<and>
        labelStale (document event) b" by simp
    from relabelAll_stale [OF nt0 wf this]
    have "changedBookmarks (snd (relabelAll (document event) ?bs ?m0)) \<noteq> {}" .
    with stale nt2 show ?thesis by (simp add: u Let_def r1)
  next
    case idle
    have r1: "?r1 = (?bs, ?m0)"
      using wf idle(2) by (intro applyChanges_untouched) blast
    have r2: "relabelAll (document event) ?bs ?m0 = (?bs, ?m0)"
      using wf idle(3) by (intro relabelAll_fresh) auto
    from idle show ?thesis by (simp add: u Let_def r1 r2)
  qed
  show ?thesis
  proof (intro conjI impI)
    show "fst (handleTextDocumentChange event s) = Returned (?P \<or> ?Q)"
      by (simp add: main)
    show "handleTextDocumentChange event s = (Returned False, s)"
      if "filter (\<lambda>b. fsPath b = ?path) ?bs = []"
      using that by (rule empty)
    assume f: "fst (handleTextDocumentChange event s) = Returned False"
    show "snd (handleTextDocumentChange event s) = s"
    proof (cases "?P \<or> ?Q")
      case True
      then have "fst (handleTextDocumentChange event s) = Returned True"
        by (simp only: main if_True fst_conv)
      with f show ?thesis by simp
    next
      case False
      then show ?thesis by (simp only: main if_False snd_conv)
    qed
  next
    assume f: "fst (handleTextDocumentChange event s) = Returned True"
    have t: "handleTextDocumentChange event s = (Returned True, save ?s2)"
    proof (cases "?P \<or> ?Q")
      case True
      then show ?thesis by (simp only: main if_True)
    next
      case False
      then have "fst (handleTextDocumentChange event s) = Returned False"
        by (simp only: main if_False fst_conv)
      with f show ?thesis by simp
    qed
    show "update_calls (workspaceState (snd (handleTextDocumentChange event s))) =
              update_calls (workspaceState s) + 2"
      and "bookmark_storage_entry (workspaceState (snd (handleTextDocumentChange event s))) =
              Some (storage (snd (handleTextDocumentChange event s)))"
      and "bookmark_active_context_entry (workspaceState (snd (handleTextDocumentChange event s))) =
              Some (activeContextId (snd (handleTextDocumentChange event s)))"
      using persisted by (simp_all only: t snd_conv)
  qed
qed

text \<open>The sequence that the method leaves, and what its two loops have done to it.\<close>

lemma mutateBookmarks_key:
  "fmlookup (storage s) (activeContextId s) \<noteq> None \<Longrightarrow> mutateBookmarks bs s = setBookmarks bs s"
  by (auto simp: mutateBookmarks_def split: option.splits)

lemma key_setBookmarks:
  "fmlookup (storage (setBookmarks bs s)) (activeContextId (setBookmarks bs s)) \<noteq> None"
  by (simp add: setBookmarks_def)

lemma mutateBookmarks_setBookmarks:
  "mutateBookmarks bs (setBookmarks cs s) = setBookmarks bs (setBookmarks cs s)"
  by (rule mutateBookmarks_key) (rule key_setBookmarks)

lemma relabel_keeps:
  "bookmarkId (fst (relabel doc b m)) = bookmarkId b \<and> fsPath (fst (relabel doc b m)) = fsPath b \<and>
   lineNumber (fst (relabel doc b m)) = lineNumber b"
  by (simp add: relabel_def Let_def)

lemma relabelAll_keeps:
  "map (\<lambda>b. (bookmarkId b, fsPath b, lineNumber b)) (fst (relabelAll doc bs m)) =
   map (\<lambda>b. (bookmarkId b, fsPath b, lineNumber b)) bs"
  by (induction bs arbitrary: m)
     (simp_all add: relabelAll_Cons relabel_keeps del: relabelAll.simps(2))

lemma relabel_not_stale:
  "1 \<le> lineNumber b \<Longrightarrow> \<not> labelStale doc (fst (relabel doc b m))"
  by (auto simp: relabel_cases labelStale_def)

lemma relabelAll_not_stale:
  "\<not> threw m \<Longrightarrow> \<forall>b\<in>set bs. fsPath b = uri_fsPath doc \<longrightarrow> 1 \<le> lineNumber b \<Longrightarrow>
     \<forall>b\<in>set (fst (relabelAll doc bs m)).
        fsPath b = uri_fsPath doc \<and> bookmarkId b \<notin> deletedBookmarks m \<longrightarrow> \<not> labelStale doc b"
proof (induction bs arbitrary: m)
  case Nil
  then show ?case by simp
next
  case (Cons b bs)
  show ?case
  proof (cases "fsPath b = uri_fsPath doc \<and> bookmarkId b \<notin> deletedBookmarks m")
    case True
    with Cons.prems have wf: "1 \<le> lineNumber b" by simp
    note r = relabel_marks [OF wf, of doc m]
    with Cons.prems have nt: "\<not> threw (snd (relabel doc b m))" by simp
    have wfs: "\<forall>b\<in>set bs. fsPath b = uri_fsPath doc \<longrightarrow> 1 \<le> lineNumber b"
      using Cons.prems(2) by simp
    from Cons.IH [OF nt wfs] r relabel_not_stale [OF wf, of doc m] True Cons.prems(1)
    show ?thesis by (simp add: relabelAll_Cons del: relabelAll.simps(2))
  next
    case False
    have wfs: "\<forall>b\<in>set bs. fsPath b = uri_fsPath doc \<longrightarrow> 1 \<le> lineNumber b"
      using Cons.prems(2) by simp
    from Cons.IH [OF Cons.prems(1) wfs] False show ?thesis
      by (auto simp add: relabelAll_Cons simp del: relabelAll.simps(2))
  qed
qed

lemma visitAll_covered:
  "\<not> threw m \<Longrightarrow> \<forall>b\<in>set bs. fsPath b = path \<longrightarrow> 1 \<le> lineNumber b \<Longrightarrow>
   b \<in> set bs \<Longrightarrow> fsPath b = path \<Longrightarrow> editCovers change b \<Longrightarrow>
     bookmarkId b \<in> deletedBookmarks (snd (visitAll path change bs m))"
proof (induction bs arbitrary: m)
  case Nil
  then show ?case by simp
next
  case (Cons x bs)
  show ?case
  proof (cases "b = x")
    case True
    have wf: "1 \<le> lineNumber b" using True Cons.prems(2,4) by simp
    have "bookmarkId b \<in> deletedBookmarks (snd (visit change b m))"
    proof (cases "bookmarkId b \<in> deletedBookmarks m")
      case True
      then show ?thesis by (simp add: visit_deleted)
    next
      case False
      from editCovers_not_precedes [OF wf Cons.prems(5)] Cons.prems(5)
      show ?thesis by (simp add: visit_cases [OF wf False])
    qed
    with visitAll_marks_mono [of "snd (visit change b m)" path change bs] True Cons.prems(1,4)
    show ?thesis by (auto simp add: visitAll_Cons simp del: visitAll.simps(2))
  next
    case False
    with Cons.prems have mem: "b \<in> set bs" by simp
    have wfs: "\<forall>b\<in>set bs. fsPath b = path \<longrightarrow> 1 \<le> lineNumber b" using Cons.prems(2) by simp
    let ?m1 = "if threw m \<or> fsPath x \<noteq> path then m else snd (visit change x m)"
    have nt: "\<not> threw ?m1" using Cons.prems(1,2) visit_threw [of x change m] by simp
    from Cons.IH [OF nt wfs mem Cons.prems(4,5)] show ?thesis
      by (auto simp add: visitAll_Cons simp del: visitAll.simps(2) split: if_splits)
  qed
qed

lemma handleTextDocumentChange_sequence:
  assumes wf: "\<forall>b\<in>set (getBookmarks s). fsPath b = uri_fsPath (document event) \<longrightarrow> 1 \<le> lineNumber b"
  shows "getBookmarks (snd (handleTextDocumentChange event s)) =
     fst (relabelAll (document event)
            (filter (\<lambda>b. bookmarkId b \<notin> deletedBookmarks
                (snd (applyChanges (uri_fsPath (document event)) (contentChanges event) (getBookmarks s)
                        \<lparr>changedBookmarks = {}, deletedBookmarks = {}, threw = False\<rparr>)))
              (fst (applyChanges (uri_fsPath (document event)) (contentChanges event) (getBookmarks s)
                        \<lparr>changedBookmarks = {}, deletedBookmarks = {}, threw = False\<rparr>)))
            (snd (applyChanges (uri_fsPath (document event)) (contentChanges event) (getBookmarks s)
                        \<lparr>changedBookmarks = {}, deletedBookmarks = {}, threw = False\<rparr>)))"
proof -
  let ?path = "uri_fsPath (document event)"
  let ?bs = "getBookmarks s"
  let ?m0 = "\<lparr>changedBookmarks = {}, deletedBookmarks = {}, threw = False\<rparr>"
  let ?r1 = "applyChanges ?path (contentChanges event) ?bs ?m0"
  let ?kept = "filter (\<lambda>b. bookmarkId b \<notin> deletedBookmarks (snd ?r1)) (fst ?r1)"
  let ?s1 = "if deletedBookmarks (snd ?r1) \<noteq> {}
             then setBookmarks ?kept s else mutateBookmarks (fst ?r1) s"
  let ?r2 = "relabelAll (document event) (getBookmarks ?s1) (snd ?r1)"
  let ?s2 = "mutateBookmarks (fst ?r2) ?s1"
  note u = handleTextDocumentChange_unfold [of event s]
  have nt0: "\<not> threw ?m0" by simp
  from applyChanges_no_throw [OF nt0 wf, of "contentChanges event"]
  have nt1: "\<not> threw (snd ?r1)"
    and wf1: "\<forall>b\<in>set (fst ?r1). fsPath b = ?path \<longrightarrow> 1 \<le> lineNumber b" by simp_all
  show ?thesis
  proof (cases "filter (\<lambda>b. fsPath b = ?path) ?bs = []")
    case True
    then have none: "\<forall>b\<in>set ?bs. fsPath b \<noteq> ?path" by (simp add: filter_empty_conv)
    then have r1: "?r1 = (?bs, ?m0)" by (intro applyChanges_untouched) simp
    have "relabelAll (document event) ?bs ?m0 = (?bs, ?m0)"
      using none by (intro relabelAll_fresh) simp
    with True show ?thesis by (simp add: u r1)
  next
    case False
    then have ne: "?bs \<noteq> []" by auto
    then have key: "fmlookup (storage s) (activeContextId s) \<noteq> None"
      by (auto simp: getBookmarks_def split: option.splits)
    have s1: "?s1 = setBookmarks ?kept s"
    proof (cases "deletedBookmarks (snd ?r1) = {}")
      case True
      then show ?thesis by (simp add: mutateBookmarks_key [OF key])
    next
      case False
      then show ?thesis by simp
    qed
    have g1: "getBookmarks ?s1 = ?kept" by (simp only: s1 getBookmarks_setBookmarks)
    have k1: "fmlookup (storage ?s1) (activeContextId ?s1) \<noteq> None"
      by (simp only: s1 key_setBookmarks not_False_eq_True)
    have wf2: "\<forall>b\<in>set (getBookmarks ?s1). fsPath b = uri_fsPath (document event) \<longrightarrow> 1 \<le> lineNumber b"
      using wf1 by (simp add: g1)
    from relabelAll_marks [OF nt1 wf2] have nt2: "\<not> threw (snd ?r2)" by simp
    have gen: "getBookmarks (mutateBookmarks (fst (relabelAll d (getBookmarks S) M)) S) =
        fst (relabelAll d K M)" if "S = setBookmarks K s" for S K M d
      using that by (simp add: mutateBookmarks_setBookmarks)
    have "getBookmarks (snd (handleTextDocumentChange event s)) = getBookmarks ?s2"
      using False nt1 nt2 by (simp add: u Let_def)
    also have "\<dots> = fst (relabelAll (document event) ?kept (snd ?r1))"
      by (rule gen [OF s1])
    finally show ?thesis .
  qed
qed

lemma relabelAll_ids:
  "map bookmarkId (fst (relabelAll doc bs m)) = map bookmarkId bs"
  by (induction bs arbitrary: m)
     (simp_all add: relabelAll_Cons relabel_keeps del: relabelAll.simps(2))

lemma relabelAll_id_lines:
  "map (\<lambda>b. (bookmarkId b, lineNumber b)) (fst (relabelAll doc bs m)) =
   map (\<lambda>b. (bookmarkId b, lineNumber b)) bs"
  by (induction bs arbitrary: m)
     (simp_all add: relabelAll_Cons relabel_keeps del: relabelAll.simps(2))

lemma not_in_image: "\<forall>x\<in>A. f x \<notin> D \<Longrightarrow> y \<in> D \<Longrightarrow> y \<notin> f ` A"
  by auto

lemma map_eq_witness:
  assumes "map f xs = map f ys" and "x \<in> set ys"
  shows "\<exists>y\<in>set xs. f y = f x"
proof -
  from assms(2) have "f x \<in> set (map f ys)" by simp
  with assms(1) have "f x \<in> set (map f xs)" by simp
  then show ?thesis by auto
qed

lemma trim_example: "trim [0x00A0, 104, 105, 0x0020] = [104, 105]"
  by (simp add: trim_def isWhiteSpace_def)




subsection \<open>The cursor after a deletion\<close>

text \<open>The method never assigns the cursor.\<close>

lemma handleTextDocumentChange_cursor:
  "currentBookmarkIndex (snd (handleTextDocumentChange event s)) = currentBookmarkIndex s"
  by (simp add: handleTextDocumentChange_unfold Let_def cursor_mutateBookmarks)

text \<open>
  C2 (failing input). In the sequence a, b, c with the cursor at 1, on b, an edit that
  overwrites the start of a's line deletes a. The method removes a from the sequence
  and does not touch the cursor: it stays 1 and now indexes c.
\<close>

theorem reconciliation_leaves_cursor:
  "getCurrentBookmark (single_store [bmA, bmB, bmC] 1) = Some bmB \<and>
   fst (handleTextDocumentChange (event_of [overwrite_line_1]) (single_store [bmA, bmB, bmC] 1)) =
     Returned True \<and>
   getBookmarks (snd (handleTextDocumentChange (event_of [overwrite_line_1])
     (single_store [bmA, bmB, bmC] 1))) = [bmB, bmC] \<and>
   currentBookmarkIndex (snd (handleTextDocumentChange (event_of [overwrite_line_1])
     (single_store [bmA, bmB, bmC] 1))) = 1 \<and>
   getCurrentBookmark (snd (handleTextDocumentChange (event_of [overwrite_line_1])
     (single_store [bmA, bmB, bmC] 1))) = Some bmC"
proof -
  have h: "handleTextDocumentChange (event_of [overwrite_line_1]) (single_store [bmA, bmB, bmC] 1) =
      (Returned True, save (single_store [bmB, bmC] 1))"
    by (simp add: example_defs reconcile_defs single_store_def)
  show ?thesis
    by (simp add: h getCurrentBookmark_def at_index_def)
qed


text \<open>The current bookmark before and after that reconciliation: b, then c.\<close>

theorem reconciliation_leaves_cursor_witness:
  "getCurrentBookmark (snd (handleTextDocumentChange (event_of [overwrite_line_1])
     (single_store [bmA, bmB, bmC] 1))) \<noteq>
   getCurrentBookmark (single_store [bmA, bmB, bmC] 1)"
  using reconciliation_leaves_cursor by (simp add: bmB_def bmC_def mkBookmark_def)

end
